theory Spec2Isabelle
  imports Complex_Main "HOL-Library.Sublist"
begin

section \<open>Rate/dedup table of the Bilibili matcher\<close>

text \<open>
  \<^verbatim>\<open>matchers/bilibili.py\<close> keeps two module-level dictionaries keyed by
  \<^verbatim>\<open>(group_id, video_id)\<close>: \<^verbatim>\<open>last_processed\<close> (key to the reading of
  \<^verbatim>\<open>time.time()\<close> at the last mark) and \<^verbatim>\<open>processing_locks\<close>.
  A dictionary is a partial map; a clock reading is a real number and is passed to every
  function that calls \<^verbatim>\<open>time.time()\<close>.
\<close>

type_synonym resource_key = "int \<times> string"

type_synonym dedup_table = "resource_key \<rightharpoonup> real"

definition RATE_LIMIT_SECONDS :: real where
  "RATE_LIMIT_SECONDS = 300"

text \<open>The condition of the list comprehension that collects \<^verbatim>\<open>expired_keys\<close>.\<close>

definition is_expired :: "dedup_table \<Rightarrow> real \<Rightarrow> resource_key \<Rightarrow> bool" where
  "is_expired last_processed current_time k =
     (case last_processed k of
        None \<Rightarrow> False
      | Some t \<Rightarrow> current_time - t > RATE_LIMIT_SECONDS)"

definition expired_keys :: "dedup_table \<Rightarrow> real \<Rightarrow> resource_key set" where
  "expired_keys last_processed current_time = {k. is_expired last_processed current_time k}"

text \<open>\<^verbatim>\<open>for k in expired_keys: del last_processed[k]\<close>\<close>

definition delete_expired :: "dedup_table \<Rightarrow> real \<Rightarrow> dedup_table" where
  "delete_expired last_processed current_time =
     (\<lambda>k. if is_expired last_processed current_time k then None else last_processed k)"

text \<open>
  \<^verbatim>\<open>should_process_video\<close> returns its boolean and the table as the sweep left it.
\<close>

definition should_process_video ::
    "dedup_table \<Rightarrow> real \<Rightarrow> int \<Rightarrow> string \<Rightarrow> bool \<times> dedup_table" where
  "should_process_video last_processed current_time group_id video_id =
     (let key = (group_id, video_id);
          swept = delete_expired last_processed current_time
      in case swept key of
           Some t \<Rightarrow>
             (let time_since_last = current_time - t
              in if time_since_last < RATE_LIMIT_SECONDS then (False, swept) else (True, swept))
         | None \<Rightarrow> (True, swept))"

definition mark_as_processed :: "dedup_table \<Rightarrow> real \<Rightarrow> int \<Rightarrow> string \<Rightarrow> dedup_table" where
  "mark_as_processed last_processed now group_id video_id =
     last_processed((group_id, video_id) \<mapsto> now)"


section \<open>Regular expressions of the Bilibili matcher\<close>

text \<open>
  A Python \<^verbatim>\<open>str\<close> is modelled by its UTF-8 bytes, so every ASCII character is one
  \<^typ>\<open>char\<close>. The classes \<^verbatim>\<open>\d\<close> and \<^verbatim>\<open>\s\<close> are given on ASCII: the decimal digits
  and the white space below 128 (Python also accepts the decimal digits and the white space of
  other scripts, which are several bytes here and match no class).

  The patterns of \<^verbatim>\<open>PATTERNS\<close> use literals, greedy bounded repetition of a character
  class, alternation, greedy optional parts and capturing groups. \<open>backtrack\<close> gives every way
  of matching a pattern at the start of the input, in the priority order in which Python's
  backtracking matcher tries them: the head of the list is the match Python reports.
  A state is the unread input with the groups captured so far.
\<close>

datatype re =
    Lit string
  | Rep "char list" nat "nat option"
  | Seq re re
  | Alt re re
  | Opt re
  | Grp nat re

type_synonym captures = "nat \<rightharpoonup> string"

fun backtrack :: "re \<Rightarrow> string \<times> captures \<Rightarrow> (string \<times> captures) list" where
  "backtrack (Lit l) (s, c) = (if prefix l s then [(drop (length l) s, c)] else [])"
| "backtrack (Rep cls lo hi) (s, c) =
     (let n = length (takeWhile (\<lambda>x. x \<in> set cls) s);
          m = (case hi of None \<Rightarrow> n | Some h \<Rightarrow> min n h)
      in map (\<lambda>k. (drop k s, c)) (rev [lo..<Suc m]))"
| "backtrack (Seq r1 r2) st = concat (map (backtrack r2) (backtrack r1 st))"
| "backtrack (Alt r1 r2) st = backtrack r1 st @ backtrack r2 st"
| "backtrack (Opt r) st = backtrack r st @ [st]"
| "backtrack (Grp i r) (s, c) =
     map (\<lambda>(s', c'). (s', c'(i \<mapsto> take (length s - length s') s))) (backtrack r (s, c))"

text \<open>A match object: \<^verbatim>\<open>group(0)\<close> and the numbered groups (\<open>None\<close> for a group that took no part).\<close>

record match_obj =
  group0 :: string
  groups :: captures

definition match_at :: "re \<Rightarrow> string \<Rightarrow> match_obj option" where
  "match_at r s =
     (case backtrack r (s, Map.empty) of
        [] \<Rightarrow> None
      | (s', c) # _ \<Rightarrow> Some \<lparr>group0 = take (length s - length s') s, groups = c\<rparr>)"

text \<open>\<^verbatim>\<open>pattern.search(text)\<close>: the match at the leftmost position that has one.\<close>

fun re_search :: "re \<Rightarrow> string \<Rightarrow> match_obj option" where
  "re_search r [] = match_at r []"
| "re_search r (x # xs) =
     (case match_at r (x # xs) of Some m \<Rightarrow> Some m | None \<Rightarrow> re_search r xs)"

definition digit_chars :: "char list" where
  "digit_chars = ''0123456789''"

definition space_chars :: "char list" where
  "space_chars = [CHR 0x09, CHR 0x0A, CHR 0x0B, CHR 0x0C, CHR 0x0D,
                  CHR 0x1C, CHR 0x1D, CHR 0x1E, CHR 0x1F, CHR '' '']"

definition letter_chars :: "char list" where
  "letter_chars = ''abcdefghijklmnopqrstuvwxyzABCDEFGHIJKLMNOPQRSTUVWXYZ''"

text \<open>\<^verbatim>\<open>[1-9a-zA-Z]\<close>\<close>

definition bv_chars :: "char list" where
  "bv_chars = ''123456789'' @ letter_chars"

text \<open>\<^verbatim>\<open>[A-Za-z\d\._?%&+\-=/#]\<close>\<close>

definition url_chars :: "char list" where
  "url_chars = letter_chars @ digit_chars @ ''._?%&+-=/#''"

text \<open>\<^verbatim>\<open>(?:\s)?(\d{1,3})?\<close>, the tail of the patterns for bare ids.\<close>

definition page_tail :: re where
  "page_tail = Seq (Opt (Rep space_chars 1 (Some 1))) (Opt (Grp 2 (Rep digit_chars 1 (Some 3))))"

text \<open>\<^verbatim>\<open>()()\<close>, the two empty groups that close the other patterns.\<close>

definition empty_groups :: re where
  "empty_groups = Seq (Grp 1 (Lit [])) (Grp 2 (Lit []))"

text \<open>
  \<^verbatim>\<open>
  "BV": (BV[1-9a-zA-Z]{10})(?:\s)?(\d{1,3})?
  "av": av(\d{6,})(?:\s)?(\d{1,3})?
  "/BV": /(BV[1-9a-zA-Z]{10})()
  "/av": /av(\d{6,})()
  "b23": https?://b23\.tv/[A-Za-z\d\._?%&+\-=/#]+()()
  "bili2233": https?://bili2233\.cn/[A-Za-z\d\._?%&+\-=/#]+()()
  "bilibili": https?://(?:space|www|live|m|t)?\.?bilibili\.com/[A-Za-z\d\._?%&+\-=/#]+()()
  \<close>
\<close>

definition PATTERNS :: "string \<rightharpoonup> re" where
  "PATTERNS =
    [''BV'' \<mapsto> Seq (Grp 1 (Seq (Lit ''BV'') (Rep bv_chars 10 (Some 10)))) page_tail,
     ''av'' \<mapsto> Seq (Lit ''av'') (Seq (Grp 1 (Rep digit_chars 6 None)) page_tail),
     ''/BV'' \<mapsto> Seq (Lit ''/'') (Seq (Grp 1 (Seq (Lit ''BV'') (Rep bv_chars 10 (Some 10))))
                  (Grp 2 (Lit []))),
     ''/av'' \<mapsto> Seq (Lit ''/av'') (Seq (Grp 1 (Rep digit_chars 6 None)) (Grp 2 (Lit []))),
     ''b23'' \<mapsto> Seq (Lit ''http'') (Seq (Opt (Lit ''s'')) (Seq (Lit ''://b23.tv/'')
                  (Seq (Rep url_chars 1 None) empty_groups))),
     ''bili2233'' \<mapsto> Seq (Lit ''http'') (Seq (Opt (Lit ''s'')) (Seq (Lit ''://bili2233.cn/'')
                  (Seq (Rep url_chars 1 None) empty_groups))),
     ''bilibili'' \<mapsto> Seq (Lit ''http'') (Seq (Opt (Lit ''s'')) (Seq (Lit ''://'')
                  (Seq (Opt (Alt (Lit ''space'') (Alt (Lit ''www'') (Alt (Lit ''live'')
                          (Alt (Lit ''m'') (Lit ''t''))))))
                  (Seq (Opt (Lit ''.'')) (Seq (Lit ''bilibili.com/'')
                  (Seq (Rep url_chars 1 None) empty_groups))))))]"

text \<open>\<^verbatim>\<open>(?:&|\?)p=(\d{1,3})\<close>\<close>

definition page_param :: re where
  "page_param = Seq (Alt (Lit ''&'') (Lit ''?'')) (Seq (Lit ''p='') (Grp 1 (Rep digit_chars 1 (Some 3))))"

section \<open>Python values the matcher converts\<close>

datatype exn =
    ActionFailed "(string \<times> string) list"
  | KeyError string
  | ValueError string
  | AttributeError string
  | FinishedException
  | OtherException string

text \<open>\<^verbatim>\<open>str(x)\<close> of a group: the text, or \<^verbatim>\<open>"None"\<close> for a group that took no part.\<close>

definition str_of_group :: "string option \<Rightarrow> string" where
  "str_of_group g = (case g of None \<Rightarrow> ''None'' | Some s \<Rightarrow> s)"

definition digit_value :: "char \<Rightarrow> int" where
  "digit_value c = int (length (takeWhile (\<lambda>d. d \<noteq> c) digit_chars))"

text \<open>
  \<^verbatim>\<open>int(s)\<close> on the strings that reach it here, the digit groups of the patterns. Any other
  string is a \<^verbatim>\<open>ValueError\<close> in the model (Python's \<^verbatim>\<open>int\<close> also takes a sign, underscores
  and surrounding white space, which no group of the patterns contains).
\<close>

definition py_int :: "string \<Rightarrow> exn + int" where
  "py_int s =
     (if s \<noteq> [] \<and> list_all (\<lambda>c. c \<in> set digit_chars) s
      then Inr (foldl (\<lambda>acc c. 10 * acc + digit_value c) 0 s)
      else Inl (ValueError s))"

text \<open>\<^verbatim>\<open>sub in s\<close> on strings.\<close>

fun contains :: "string \<Rightarrow> string \<Rightarrow> bool" where
  "contains sub [] = (sub = [])"
| "contains sub (x # xs) = (prefix sub (x # xs) \<or> contains sub xs)"

section \<open>Resolution of a text fragment to a video id\<close>

text \<open>
  \<^verbatim>\<open>get_redirect_url\<close> belongs to the parsers package and performs the HTTP hop; it is a
  parameter that returns the resolved URL or raises.
\<close>

text \<open>The part of \<^verbatim>\<open>parse_video_id_from_text\<close> after the short-link hop.\<close>

definition resolve_id_and_page ::
    "string \<Rightarrow> string \<Rightarrow> string \<Rightarrow> string option \<Rightarrow> exn + (string \<times> string \<times> int \<times> string) option" where
  "resolve_id_and_page keyword url video_id page_num =
     (let video_type = ''BV'';
          id_type = find (\<lambda>i. contains i url) [''/BV'', ''/av''];
          idr = (case id_type of
                   Some it \<Rightarrow>
                     (case PATTERNS it of
                        None \<Rightarrow> Inl (KeyError it)
                      | Some pat \<Rightarrow>
                          (case re_search pat url of
                             Some matched \<Rightarrow>
                               Inr (str_of_group (groups matched 1),
                                    if contains ''av'' it then ''av'' else ''BV'')
                           | None \<Rightarrow> Inr (video_id, video_type)))
                 | None \<Rightarrow>
                     Inr (video_id, if keyword \<in> {''av'', ''/av''} then ''av'' else video_type))
      in case idr of
           Inl e \<Rightarrow> Inl e
         | Inr (video_id', video_type') \<Rightarrow>
             (case (case page_num of
                     None \<Rightarrow> Inr 1
                   | Some digits \<Rightarrow> if digits \<noteq> [] then py_int digits else Inr 1) of
                Inl e \<Rightarrow> Inl e
              | Inr p \<Rightarrow>
                  (case (if url \<noteq> [] then re_search page_param url else None) of
                     Some matched \<Rightarrow>
                       (case py_int (str_of_group (groups matched 1)) of
                          Inl e \<Rightarrow> Inl e
                        | Inr p' \<Rightarrow> Inr (Some (url, video_id', p', video_type')))
                   | None \<Rightarrow> Inr (Some (url, video_id', p, video_type')))))"

definition parse_video_id_from_text ::
    "(string \<Rightarrow> exn + string) \<Rightarrow> string \<Rightarrow> string \<Rightarrow>
     exn + (string \<times> string \<times> int \<times> string) option" where
  "parse_video_id_from_text get_redirect_url text keyword =
     (case PATTERNS keyword of
        None \<Rightarrow> Inl (KeyError keyword)
      | Some pat \<Rightarrow>
          (case re_search pat text of
             None \<Rightarrow> Inr None
           | Some matched \<Rightarrow>
               (let url = group0 matched;
                    video_id = str_of_group (groups matched 1);
                    page_num = groups matched 2
                in if keyword \<in> {''b23'', ''bili2233''}
                   then (let b23url = url
                         in case get_redirect_url url of
                              Inl e \<Rightarrow> Inl e
                            | Inr url' \<Rightarrow>
                                if url' = b23url then Inr None
                                else resolve_id_and_page keyword url' video_id page_num)
                   else resolve_id_and_page keyword url video_id page_num)))"

section \<open>The world of one handler invocation\<close>

text \<open>
  The values of \<^verbatim>\<open>config\<close> that the matcher imports are parameters.
\<close>

record config =
  DURATION_MAXIMUM :: int
  NICKNAME :: string
  plugin_cache_dir :: string

text \<open>The fields of the parser's video description that the matcher reads.\<close>

record video_info =
  title :: string
  cover_url :: string
  display_info :: string
  ai_summary :: string
  video_url :: string
  audio_url :: "string option"
  video_duration :: int

datatype matcher = Bilibili | BilibiliAutoDownload

datatype message = Text string | ImgSeg string | VideoSeg string

datatype video_ref = Avid int | Bvid string

text \<open>
  Everything a handler does to the outside is an action, appended to a trace in the order
  in which it happens. The lock and the dedup table are part of the program; their operations
  are recorded in the same trace so that the order of marks, fetches and downloads can be read
  off.
\<close>

datatype action =
    LockAcquire resource_key
  | LockRelease resource_key
  | MarkProcessed resource_key real
  | NonVideoContent string
  | Send matcher message
  | SendSegments "message list"
  | ParseVideoInfo video_ref int
  | DownloadImg string
  | PathExists string
  | DownloadFileByStream string string
  | MergeAv string string string
  | DownloadVideo string string
  | EncodeVideoToH264 string

text \<open>
  The outcome of every call that leaves the module: a value, or the exception it raises.
  The outcome of a send may depend on what happened before it, so it takes the trace so far.
\<close>

record env =
  redirect_result :: "string \<Rightarrow> exn + string"
  non_video_result :: "string \<Rightarrow> exn + bool"
  send_result :: "action list \<Rightarrow> matcher \<Rightarrow> message \<Rightarrow> exn + unit"
  send_segments_result :: "action list \<Rightarrow> message list \<Rightarrow> exn + unit"
  parse_video_info_result :: "video_ref \<Rightarrow> int \<Rightarrow> exn + video_info"
  download_img_result :: "string \<Rightarrow> exn + string"
  path_exists_result :: "string \<Rightarrow> bool"
  download_file_by_stream_result :: "string \<Rightarrow> string \<Rightarrow> exn + string"
  merge_av_result :: "string \<Rightarrow> string \<Rightarrow> string \<Rightarrow> exn + unit"
  download_video_result :: "string \<Rightarrow> string \<Rightarrow> exn + string"
  encode_video_to_h264_result :: "string \<Rightarrow> exn + string"

text \<open>
  A coroutine of the module takes the trace so far and returns its result, a value or a raised
  exception, with the extended trace.
\<close>

type_synonym 'a io = "action list \<Rightarrow> (exn + 'a) \<times> action list"

definition io_return :: "'a \<Rightarrow> 'a io" where
  "io_return x = (\<lambda>tr. (Inr x, tr))"

definition io_raise :: "exn \<Rightarrow> 'a io" where
  "io_raise e = (\<lambda>tr. (Inl e, tr))"

definition io_bind :: "'a io \<Rightarrow> ('a \<Rightarrow> 'b io) \<Rightarrow> 'b io" where
  "io_bind m f = (\<lambda>tr. case m tr of (Inl e, tr') \<Rightarrow> (Inl e, tr') | (Inr x, tr') \<Rightarrow> f x tr')"

definition perform :: "action \<Rightarrow> (action list \<Rightarrow> exn + 'a) \<Rightarrow> 'a io" where
  "perform a outcome = (\<lambda>tr. (outcome tr, tr @ [a]))"

text \<open>
  \<^verbatim>\<open>try: m  except ActionFailed as e: h(e)\<close>. An exception raised by the handler itself is
  not caught again.
\<close>

definition try_except_ActionFailed :: "'a io \<Rightarrow> ((string \<times> string) list \<Rightarrow> 'a io) \<Rightarrow> 'a io" where
  "try_except_ActionFailed m h =
     (\<lambda>tr. case m tr of
             (Inl (ActionFailed info), tr') \<Rightarrow> h info tr'
           | (r, tr') \<Rightarrow> (r, tr'))"

text \<open>
  \<^verbatim>\<open>await asyncio.gather(a, b)\<close>: both coroutines are started, so both actions happen; the
  call raises when one of them does. When both raise, Python reports the one that fails first
  in time; the model reports the first argument's.
\<close>

definition gather :: "'a io \<Rightarrow> 'b io \<Rightarrow> ('a \<times> 'b) io" where
  "gather a b =
     (\<lambda>tr. case a tr of
             (ra, tr1) \<Rightarrow>
               (case b tr1 of
                  (rb, tr2) \<Rightarrow>
                    (case ra of
                       Inl e \<Rightarrow> (Inl e, tr2)
                     | Inr x \<Rightarrow> (case rb of Inl e \<Rightarrow> (Inl e, tr2) | Inr y \<Rightarrow> (Inr (x, y), tr2)))))"

definition send :: "env \<Rightarrow> matcher \<Rightarrow> message \<Rightarrow> unit io" where
  "send w m msg = perform (Send m msg) (\<lambda>tr. send_result w tr m msg)"

definition send_segments :: "env \<Rightarrow> message list \<Rightarrow> unit io" where
  "send_segments w segs = perform (SendSegments segs) (\<lambda>tr. send_segments_result w tr segs)"

definition parse_video_info :: "env \<Rightarrow> video_ref \<Rightarrow> int \<Rightarrow> video_info io" where
  "parse_video_info w ref page_num =
     perform (ParseVideoInfo ref page_num) (\<lambda>tr. parse_video_info_result w ref page_num)"

definition download_img :: "env \<Rightarrow> string \<Rightarrow> string io" where
  "download_img w url = perform (DownloadImg url) (\<lambda>tr. download_img_result w url)"

definition path_exists :: "env \<Rightarrow> string \<Rightarrow> bool io" where
  "path_exists w p = perform (PathExists p) (\<lambda>tr. Inr (path_exists_result w p))"

definition download_file_by_stream :: "env \<Rightarrow> string \<Rightarrow> string \<Rightarrow> string io" where
  "download_file_by_stream w url file_name =
     perform (DownloadFileByStream url file_name) (\<lambda>tr. download_file_by_stream_result w url file_name)"

definition merge_av :: "env \<Rightarrow> string \<Rightarrow> string \<Rightarrow> string \<Rightarrow> unit io" where
  "merge_av w v_path a_path output_path =
     perform (MergeAv v_path a_path output_path) (\<lambda>tr. merge_av_result w v_path a_path output_path)"

definition download_video :: "env \<Rightarrow> string \<Rightarrow> string \<Rightarrow> string io" where
  "download_video w url video_name =
     perform (DownloadVideo url video_name) (\<lambda>tr. download_video_result w url video_name)"

definition encode_video_to_h264 :: "env \<Rightarrow> string \<Rightarrow> string io" where
  "encode_video_to_h264 w p = perform (EncodeVideoToH264 p) (\<lambda>tr. encode_video_to_h264_result w p)"

text \<open>
  \<^verbatim>\<open>handle_non_video_content\<close> (posts, live rooms, articles, collections) only talks to the
  parser and to the transport and touches neither table; it is one action whose outcome the
  world gives.
\<close>

definition handle_non_video_content :: "env \<Rightarrow> string \<Rightarrow> bool io" where
  "handle_non_video_content w url = perform (NonVideoContent url) (\<lambda>tr. non_video_result w url)"

section \<open>Strings the handlers build\<close>

fun str_nat :: "nat \<Rightarrow> string" where
  "str_nat n = (if n < 10 then [digit_chars ! n] else str_nat (n div 10) @ [digit_chars ! (n mod 10)])"

text \<open>\<^verbatim>\<open>str(i)\<close> of an integer, as an f-string formats it.\<close>

definition str_int :: "int \<Rightarrow> string" where
  "str_int i = (if i < 0 then ''-'' @ str_nat (nat (- i)) else str_nat (nat i))"

text \<open>\<^verbatim>\<open>plugin_cache_dir / name\<close> for a relative name.\<close>

definition path_join :: "string \<Rightarrow> string \<Rightarrow> string" where
  "path_join dir name = dir @ ''/'' @ name"

text \<open>The signature of the missing-thumbnail error: the message ends with \<^verbatim>\<open>.png'\<close>.\<close>

definition thumbnail_suffix :: string where
  "thumbnail_suffix = ''.png'' @ [CHR 0x27]"

section \<open>Media assembly: \<^verbatim>\<open>download_and_send_video\<close>\<close>

text \<open>
  The download of a missing file: the video and the audio stream together and then the merge
  into \<^verbatim>\<open>video_path\<close>, or the single combined stream when there is no audio URL.
\<close>

definition fetch_video_file :: "env \<Rightarrow> video_info \<Rightarrow> string \<Rightarrow> string \<Rightarrow> string io" where
  "fetch_video_file w info file_name video_path =
     (case audio_url info of
        Some a \<Rightarrow>
          (if a \<noteq> []
           then io_bind (gather (download_file_by_stream w (video_url info) (file_name @ ''-video.m4s''))
                                (download_file_by_stream w a (file_name @ ''-audio.m4s'')))
                  (\<lambda>(v_path, a_path).
                     io_bind (merge_av w v_path a_path video_path) (\<lambda>_. io_return video_path))
           else download_video w (video_url info) (file_name @ ''.mp4''))
      | None \<Rightarrow> download_video w (video_url info) (file_name @ ''.mp4''))"

text \<open>\<^verbatim>\<open>e.info.get("message", "")\<close>\<close>

definition info_message :: "(string \<times> string) list \<Rightarrow> string" where
  "info_message info = (case map_of info ''message'' of None \<Rightarrow> [] | Some s \<Rightarrow> s)"

text \<open>
  The upload:
  \<^verbatim>\<open>
  try:
      await matcher.send(get_video_seg(video_path))
  except ActionFailed as e:
      message: str = e.info.get("message", "")
      if not message.endswith(".png'"):
          raise
      h264_video_path = await encode_video_to_h264(video_path)
      await matcher.send(get_video_seg(h264_video_path))
  \<close>
\<close>

definition send_video_with_retry :: "env \<Rightarrow> matcher \<Rightarrow> string \<Rightarrow> unit io" where
  "send_video_with_retry w m video_path =
     try_except_ActionFailed (send w m (VideoSeg video_path))
       (\<lambda>info.
          (let message = info_message info
           in if \<not> suffix thumbnail_suffix message then io_raise (ActionFailed info)
              else io_bind (encode_video_to_h264 w video_path)
                     (\<lambda>h264_video_path. send w m (VideoSeg h264_video_path))))"

text \<open>
  The download step of \<^verbatim>\<open>download_and_send_video\<close>: the cache file name, the test
  \<^verbatim>\<open>video_path.exists()\<close>, and the download when the file is missing.
\<close>

definition obtain_video_file :: "config \<Rightarrow> env \<Rightarrow> video_info \<Rightarrow> string \<Rightarrow> int \<Rightarrow> string io" where
  "obtain_video_file cfg w info video_id page_num =
     (let file_name = video_id @ ''-'' @ str_int page_num;
          video_path = path_join (plugin_cache_dir cfg) (file_name @ ''.mp4'')
      in io_bind (path_exists w video_path)
           (\<lambda>present.
              if \<not> present then fetch_video_file w info file_name video_path
              else io_return video_path))"

definition download_and_send_video ::
    "config \<Rightarrow> env \<Rightarrow> matcher \<Rightarrow> video_info \<Rightarrow> string \<Rightarrow> int \<Rightarrow> bool io" where
  "download_and_send_video cfg w m info video_id page_num =
     (if video_duration info > DURATION_MAXIMUM cfg then io_return False
      else io_bind (obtain_video_file cfg w info video_id page_num)
             (\<lambda>video_path.
                io_bind (send_video_with_retry w m video_path) (\<lambda>_. io_return True)))"

text \<open>The actions that fetch media.\<close>

definition is_download :: "action \<Rightarrow> bool" where
  "is_download a =
     (case a of
        DownloadFileByStream _ _ \<Rightarrow> True
      | DownloadVideo _ _ \<Rightarrow> True
      | _ \<Rightarrow> False)"

text \<open>A world in which every outside call succeeds and no file is cached, for examples.\<close>

definition sample_info :: video_info where
  "sample_info =
     \<lparr>title = ''t'', cover_url = ''c'', display_info = ''d'', ai_summary = ''s'',
      video_url = ''v'', audio_url = Some ''a'', video_duration = 599\<rparr>"

definition calm_world :: env where
  "calm_world =
     \<lparr>redirect_result = (\<lambda>u. Inr (''https://www.bilibili.com/video/BV1xx411c7mD'')),
      non_video_result = (\<lambda>u. Inr True),
      send_result = (\<lambda>tr m msg. Inr ()),
      send_segments_result = (\<lambda>tr segs. Inr ()),
      parse_video_info_result = (\<lambda>r p. Inr sample_info),
      download_img_result = (\<lambda>u. Inr ''cover.png''),
      path_exists_result = (\<lambda>p. False),
      download_file_by_stream_result = (\<lambda>u n. Inr n),
      merge_av_result = (\<lambda>v a out. Inr ()),
      download_video_result = (\<lambda>u n. Inr n),
      encode_video_to_h264_result = (\<lambda>p. Inr (p @ ''.h264''))\<rparr>"

definition sample_config :: config where
  "sample_config = \<lparr>DURATION_MAXIMUM = 600, NICKNAME = ''bot'', plugin_cache_dir = ''cache''\<rparr>"

section \<open>The coordinator state and the two handlers\<close>

text \<open>
  \<^verbatim>\<open>processing_locks\<close> is a \<^verbatim>\<open>defaultdict(asyncio.Lock)\<close>: a key is mapped once its lock has
  been created, and the boolean is \<^verbatim>\<open>lock.locked()\<close>.
\<close>

record coord =
  last_processed :: dedup_table
  processing_locks :: "resource_key \<rightharpoonup> bool"

datatype event = GroupMessageEvent (group_id: int) (user_id: int) | PrivateMessageEvent (user_id: int)

text \<open>\<^verbatim>\<open>group_id = event.group_id if isinstance(event, GroupMessageEvent) else 0\<close>\<close>

definition scope_id :: "event \<Rightarrow> int" where
  "scope_id ev = (case ev of GroupMessageEvent g _ \<Rightarrow> g | PrivateMessageEvent _ \<Rightarrow> 0)"

text \<open>\<^verbatim>\<open>lock = processing_locks.get(key); return lock is not None and lock.locked()\<close>\<close>

definition is_processing :: "coord \<Rightarrow> int \<Rightarrow> string \<Rightarrow> bool" where
  "is_processing st g v = (case processing_locks st (g, v) of None \<Rightarrow> False | Some locked \<Rightarrow> locked)"

text \<open>\<^verbatim>\<open>processing_locks[key]\<close> creates an unlocked lock for a key that has none.\<close>

definition lookup_lock :: "coord \<Rightarrow> resource_key \<Rightarrow> bool \<times> coord" where
  "lookup_lock st key =
     (case processing_locks st key of
        None \<Rightarrow> (False, st\<lparr>processing_locks := (processing_locks st)(key \<mapsto> False)\<rparr>)
      | Some locked \<Rightarrow> (locked, st))"

definition set_locked :: "coord \<Rightarrow> resource_key \<Rightarrow> bool \<Rightarrow> coord" where
  "set_locked st key b = st\<lparr>processing_locks := (processing_locks st)(key \<mapsto> b)\<rparr>"

text \<open>The two table operations on the coordinator state.\<close>

definition check_should_process :: "coord \<Rightarrow> real \<Rightarrow> int \<Rightarrow> string \<Rightarrow> bool \<times> coord" where
  "check_should_process st now g v =
     (case should_process_video (last_processed st) now g v of
        (ok, swept) \<Rightarrow> (ok, st\<lparr>last_processed := swept\<rparr>))"

definition do_mark :: "coord \<Rightarrow> real \<Rightarrow> int \<Rightarrow> string \<Rightarrow> coord" where
  "do_mark st now g v = st\<lparr>last_processed := mark_as_processed (last_processed st) now g v\<rparr>"

text \<open>
  How an invocation ends: it returns (normally or with an exception), or it is suspended in
  \<^verbatim>\<open>lock.acquire()\<close> because the lock is held.
\<close>

datatype completion = Returned "exn + unit" | Suspended

text \<open>
  The guarded section, from the acquired lock to its release.
  \<^verbatim>\<open>
  async with processing_locks[(group_id, video_id)]:
      if not should_process_video(group_id, video_id):
          return
      mark_as_processed(group_id, video_id)
      ... work ...
  \<close>
  \<open>t_recheck\<close> and \<open>t_mark\<close> are the clock readings of the double check and of the mark.
  \<^verbatim>\<open>async with\<close> releases the lock on every way out of its body: the early return, the
  normal end and a raised exception.
\<close>

definition enter_guarded :: "coord \<Rightarrow> int \<Rightarrow> string \<Rightarrow> real \<Rightarrow> real \<Rightarrow> bool \<times> coord" where
  "enter_guarded st g v t_recheck t_mark =
     (case check_should_process st t_recheck g v of
        (ok, st1) \<Rightarrow> if \<not> ok then (False, st1) else (True, do_mark st1 t_mark g v))"

definition guarded_section ::
    "coord \<Rightarrow> int \<Rightarrow> string \<Rightarrow> real \<Rightarrow> real \<Rightarrow> unit io \<Rightarrow> action list
     \<Rightarrow> completion \<times> coord \<times> action list" where
  "guarded_section st g v t_recheck t_mark work tr =
     (let key = (g, v);
          st1 = set_locked st key True;
          tr1 = tr @ [LockAcquire key]
      in case enter_guarded st1 g v t_recheck t_mark of
           (False, st2) \<Rightarrow>
             (Returned (Inr ()), set_locked st2 key False, tr1 @ [LockRelease key])
         | (True, st2) \<Rightarrow>
             (case work (tr1 @ [MarkProcessed key t_mark]) of
                (r, tr2) \<Rightarrow> (Returned r, set_locked st2 key False, tr2 @ [LockRelease key])))"

text \<open>
  \<^verbatim>\<open>async with processing_locks[key]\<close>: the lock is created when missing; a free lock is
  taken at once, without yielding to the event loop; a held lock suspends the caller.
\<close>

definition async_with_lock ::
    "coord \<Rightarrow> int \<Rightarrow> string \<Rightarrow> real \<Rightarrow> real \<Rightarrow> unit io \<Rightarrow> action list
     \<Rightarrow> completion \<times> coord \<times> action list" where
  "async_with_lock st g v t_recheck t_mark work tr =
     (case lookup_lock st (g, v) of
        (locked, st1) \<Rightarrow>
          if locked then (Suspended, st1, tr)
          else guarded_section st1 g v t_recheck t_mark work tr)"

definition parse_label :: string where
  "parse_label = [CHR 0xE8, CHR 0xA7, CHR 0xA3, CHR 0xE6, CHR 0x9E, CHR 0x90, CHR 0x20, CHR 0x7C,
     CHR 0x20, CHR 0xE5, CHR 0x93, CHR 0x94, CHR 0xE5, CHR 0x93, CHR 0xA9, CHR 0xE5, CHR 0x93,
     CHR 0x94, CHR 0xE5, CHR 0x93, CHR 0xA9, CHR 0x20, CHR 0x2D, CHR 0x20]"

definition video_label :: string where
  "video_label = [CHR 0xE8, CHR 0xA7, CHR 0x86, CHR 0xE9, CHR 0xA2, CHR 0x91]"

definition duration_warning :: "int \<Rightarrow> int \<Rightarrow> string" where
  "duration_warning minutes limit_minutes =
     [CHR 0xE2, CHR 0x9A, CHR 0xA0, CHR 0xEF, CHR 0xB8, CHR 0x8F, CHR 0x20, CHR 0xE5, CHR 0xBD,
      CHR 0x93, CHR 0xE5, CHR 0x89, CHR 0x8D, CHR 0xE8, CHR 0xA7, CHR 0x86, CHR 0xE9, CHR 0xA2,
      CHR 0x91, CHR 0xE6, CHR 0x97, CHR 0xB6, CHR 0xE9, CHR 0x95, CHR 0xBF, CHR 0x20]
     @ str_int minutes
     @ [CHR 0x20, CHR 0xE5, CHR 0x88, CHR 0x86, CHR 0xE9, CHR 0x92, CHR 0x9F, CHR 0x2C, CHR 0x20,
        CHR 0xE8, CHR 0xB6, CHR 0x85, CHR 0xE8, CHR 0xBF, CHR 0x87, CHR 0xE7, CHR 0xAE, CHR 0xA1,
        CHR 0xE7, CHR 0x90, CHR 0x86, CHR 0xE5, CHR 0x91, CHR 0x98, CHR 0xE8, CHR 0xAE, CHR 0xBE,
        CHR 0xE7, CHR 0xBD, CHR 0xAE, CHR 0xE7, CHR 0x9A, CHR 0x84, CHR 0xE6, CHR 0x9C, CHR 0x80,
        CHR 0xE9, CHR 0x95, CHR 0xBF, CHR 0xE6, CHR 0x97, CHR 0xB6, CHR 0xE9, CHR 0x97, CHR 0xB4,
        CHR 0x20]
     @ str_int limit_minutes
     @ [CHR 0x20, CHR 0xE5, CHR 0x88, CHR 0x86, CHR 0xE9, CHR 0x92, CHR 0x9F, CHR 0x21]"

text \<open>
  \<^verbatim>\<open>parser.parse_video_info(avid=int(video_id), ...)\<close> for an av id,
  \<^verbatim>\<open>parser.parse_video_info(bvid=video_id, ...)\<close> otherwise.
\<close>

definition fetch_video_info :: "env \<Rightarrow> string \<Rightarrow> string \<Rightarrow> int \<Rightarrow> video_info io" where
  "fetch_video_info w video_type video_id page_num =
     (if video_type = ''av''
      then (case py_int video_id of
              Inl e \<Rightarrow> io_raise e
            | Inr n \<Rightarrow> parse_video_info w (Avid n) page_num)
      else parse_video_info w (Bvid video_id) page_num)"

text \<open>The body of the guarded section of the \<^verbatim>\<open>bilibili\<close> handler after the mark.\<close>

definition bilibili_work ::
    "config \<Rightarrow> env \<Rightarrow> string \<Rightarrow> string \<Rightarrow> int \<Rightarrow> string \<Rightarrow> unit io" where
  "bilibili_work cfg w keyword video_id page_num video_type =
     (let pub_prefix = NICKNAME cfg @ parse_label;
          need_join_link = (keyword \<noteq> ''bilibili'');
          join_link =
            (if need_join_link
             then (let url_id = (if video_type = ''av'' then ''av'' @ video_id else video_id)
                   in '' https://www.bilibili.com/video/'' @ url_id)
             else [])
      in io_bind (send w Bilibili (Text (pub_prefix @ video_label @ join_link)))
           (\<lambda>_. io_bind (fetch_video_info w video_type video_id page_num)
              (\<lambda>info. io_bind (download_img w (cover_url info))
                 (\<lambda>cover.
                    (let segs = [Text (title info), ImgSeg cover, Text (display_info info),
                                 Text (ai_summary info)];
                         segs' = (if video_duration info > DURATION_MAXIMUM cfg
                                  then segs @ [Text (duration_warning (video_duration info div 60)
                                                       (DURATION_MAXIMUM cfg div 60))]
                                  else segs)
                     in io_bind (send_segments w segs')
                          (\<lambda>_. io_bind (download_and_send_video cfg w Bilibili info video_id page_num)
                                  (\<lambda>_. io_return ())))))))"

text \<open>The body of the guarded section of the \<^verbatim>\<open>bilibili_auto_download\<close> handler after the mark.\<close>

definition auto_download_work ::
    "config \<Rightarrow> env \<Rightarrow> string \<Rightarrow> int \<Rightarrow> string \<Rightarrow> unit io" where
  "auto_download_work cfg w video_id page_num video_type =
     io_bind (fetch_video_info w video_type video_id page_num)
       (\<lambda>info. io_bind (download_and_send_video cfg w BilibiliAutoDownload info video_id page_num)
                  (\<lambda>_. io_return ()))"

text \<open>
  The handlers, without the \<^verbatim>\<open>handle_exception\<close> decorator (which is not part of this
  module). \<open>t_check\<close>, \<open>t_recheck\<close> and \<open>t_mark\<close> are the readings of \<^verbatim>\<open>time.time()\<close> in
  the first check, in the double check and in the mark. \<^verbatim>\<open>bilibili.finish()\<close> raises
  \<^verbatim>\<open>FinishedException\<close>.
\<close>

definition bilibili_handle ::
    "config \<Rightarrow> env \<Rightarrow> coord \<Rightarrow> event \<Rightarrow> string \<Rightarrow> string \<Rightarrow> real \<Rightarrow> real \<Rightarrow> real
     \<Rightarrow> completion \<times> coord \<times> action list" where
  "bilibili_handle cfg w st ev text keyword t_check t_recheck t_mark =
     (case parse_video_id_from_text (redirect_result w) text keyword of
        Inl e \<Rightarrow> (Returned (Inl e), st, [])
      | Inr None \<Rightarrow> (Returned (Inr ()), st, [])
      | Inr (Some (url, video_id, page_num, video_type)) \<Rightarrow>
          if video_id = []
          then (case io_bind (handle_non_video_content w url) (\<lambda>handled. io_raise FinishedException) [] of
                  (r, tr) \<Rightarrow> (Returned r, st, tr))
          else
            (let g = scope_id ev
             in case check_should_process st t_check g video_id of
                  (ok, st1) \<Rightarrow>
                    if \<not> ok then (Returned (Inr ()), st1, [])
                    else if is_processing st1 g video_id then (Returned (Inr ()), st1, [])
                    else async_with_lock st1 g video_id t_recheck t_mark
                           (bilibili_work cfg w keyword video_id page_num video_type) []))"

definition bilibili_auto_download_handle ::
    "config \<Rightarrow> env \<Rightarrow> coord \<Rightarrow> event \<Rightarrow> string \<Rightarrow> string \<Rightarrow> real \<Rightarrow> real \<Rightarrow> real
     \<Rightarrow> completion \<times> coord \<times> action list" where
  "bilibili_auto_download_handle cfg w st ev text keyword t_check t_recheck t_mark =
     (case parse_video_id_from_text (redirect_result w) text keyword of
        Inl e \<Rightarrow> (Returned (Inl e), st, [])
      | Inr None \<Rightarrow> (Returned (Inr ()), st, [])
      | Inr (Some (url, video_id, page_num, video_type)) \<Rightarrow>
          if video_id = [] then (Returned (Inr ()), st, [])
          else
            (let g = scope_id ev
             in case check_should_process st t_check g video_id of
                  (ok, st1) \<Rightarrow>
                    if \<not> ok then (Returned (Inr ()), st1, [])
                    else async_with_lock st1 g video_id t_recheck t_mark
                           (auto_download_work cfg w video_id page_num video_type) []))"

text \<open>
  An invocation gets past the first check, finds the lock free and gets past the double check.
\<close>

definition passes_checks :: "coord \<Rightarrow> int \<Rightarrow> string \<Rightarrow> real \<Rightarrow> real \<Rightarrow> bool" where
  "passes_checks st g v t_check t_recheck =
     (case check_should_process st t_check g v of
        (ok, st1) \<Rightarrow>
          ok \<and> \<not> is_processing st1 g v \<and> fst (check_should_process st1 t_recheck g v))"

definition fresh_coord :: coord where
  "fresh_coord = \<lparr>last_processed = Map.empty, processing_locks = Map.empty\<rparr>"

text \<open>A coroutine only appends to the trace.\<close>

definition extends_trace :: "'a io \<Rightarrow> bool" where
  "extends_trace m = (\<forall>tr. prefix tr (snd (m tr)))"

section \<open>Concurrent invocations on the event loop\<close>

text \<open>
  The handlers run as tasks of one single-threaded event loop: a task runs without
  interruption until it awaits something that is not ready. Seen from the two shared tables, an
  invocation that has resolved a video id consists of these uninterrupted segments:
  \<^item> the entry: first check, (in the \<^verbatim>\<open>bilibili\<close> handler) the \<^verbatim>\<open>is_processing\<close> test, and
    the attempt to take the lock; when the lock is taken, the double check and the mark follow
    in the same segment, otherwise the task is suspended inside \<^verbatim>\<open>acquire\<close>;
  \<^item> the resumption of a suspended task that has been woken: it takes the lock and performs
    the double check and the mark;
  \<^item> the exit from the guarded section, which releases the lock.
  The awaited work inside the guarded section touches neither table.

  \<^verbatim>\<open>asyncio.Lock\<close> keeps, besides its flag, the queue of the callers suspended in
  \<^verbatim>\<open>acquire\<close>. \<^verbatim>\<open>acquire\<close> takes the lock at once only when the flag is clear and nobody is
  queued; otherwise the caller joins the end of the queue, also when the flag is clear and an
  earlier caller has been woken but has not run yet. \<^verbatim>\<open>release\<close> clears the flag and wakes the
  first caller of the queue, which leaves the queue and sets the flag when it runs next.
  \<^verbatim>\<open>lock.locked()\<close> reads the flag only. The queues of all locks are kept in one list of
  suspended tasks, in the order of their arrival; the queue of a lock is the sublist of the
  tasks of its key. A task is never cancelled while it waits.
\<close>

datatype ending = RateLimited | LockBusy | RecheckFailed | Completed

datatype pc = NotStarted | InSection | WaitingForLock | Finished ending

definition acquire_segment :: "coord \<Rightarrow> int \<Rightarrow> string \<Rightarrow> real \<Rightarrow> real \<Rightarrow> pc \<times> coord" where
  "acquire_segment st g v t_recheck t_mark =
     (case enter_guarded (set_locked st (g, v) True) g v t_recheck t_mark of
        (False, st') \<Rightarrow> (Finished RecheckFailed, set_locked st' (g, v) False)
      | (True, st') \<Rightarrow> (InSection, st'))"

text \<open>\<open>queued\<close> tells whether some caller is in the queue of the key's lock.\<close>

definition entry_segment ::
    "matcher \<Rightarrow> coord \<Rightarrow> int \<Rightarrow> string \<Rightarrow> bool \<Rightarrow> real \<Rightarrow> real \<Rightarrow> real \<Rightarrow> pc \<times> coord" where
  "entry_segment m st g v queued t_check t_recheck t_mark =
     (case check_should_process st t_check g v of
        (ok, st1) \<Rightarrow>
          if \<not> ok then (Finished RateLimited, st1)
          else if m = Bilibili \<and> is_processing st1 g v then (Finished LockBusy, st1)
          else (case lookup_lock st1 (g, v) of
                  (locked, st2) \<Rightarrow>
                    if locked \<or> queued then (WaitingForLock, st2)
                    else acquire_segment st2 g v t_recheck t_mark))"

definition exit_segment :: "coord \<Rightarrow> int \<Rightarrow> string \<Rightarrow> coord" where
  "exit_segment st g v = set_locked st (g, v) False"

record task =
  task_matcher :: matcher
  task_group :: int
  task_video :: string
  task_pc :: pc

definition task_key :: "task \<Rightarrow> resource_key" where
  "task_key t = (task_group t, task_video t)"

record system =
  shared :: coord
  tasks :: "task list"
  waiting :: "nat list"

text \<open>The queue of the lock of key \<open>k\<close>: whether it has a member, and its first member.\<close>

definition queued_for :: "system \<Rightarrow> resource_key \<Rightarrow> bool" where
  "queued_for s k = list_ex (\<lambda>j. task_key (tasks s ! j) = k) (waiting s)"

definition first_waiter :: "system \<Rightarrow> resource_key \<Rightarrow> nat option" where
  "first_waiter s k = find (\<lambda>j. task_key (tasks s ! j) = k) (waiting s)"

text \<open>
  What the event loop runs next: the entry of task \<open>i\<close>, the resumption of the suspended task
  \<open>i\<close>, or the exit of task \<open>i\<close> from its guarded section; with the clock readings of the
  segment. A suspended task resumes when it is the first of its lock's queue and the flag is
  clear, which is when \<^verbatim>\<open>release\<close> has woken it.
\<close>

datatype sched = Start nat real real real | Wake nat real real | Exit nat

definition set_pc :: "task list \<Rightarrow> nat \<Rightarrow> pc \<Rightarrow> task list" where
  "set_pc ts i p = ts[i := (ts ! i)\<lparr>task_pc := p\<rparr>]"

fun step :: "system \<Rightarrow> sched \<Rightarrow> system option" where
  "step s (Start i t_check t_recheck t_mark) =
     (if i < length (tasks s) \<and> task_pc (tasks s ! i) = NotStarted
      then (let t = tasks s ! i
            in case entry_segment (task_matcher t) (shared s) (task_group t) (task_video t)
                      (queued_for s (task_key t)) t_check t_recheck t_mark of
                 (p, st') \<Rightarrow>
                   Some \<lparr>shared = st', tasks = set_pc (tasks s) i p,
                         waiting = (if p = WaitingForLock then waiting s @ [i] else waiting s)\<rparr>)
      else None)"
| "step s (Wake i t_recheck t_mark) =
     (if i < length (tasks s) \<and> task_pc (tasks s ! i) = WaitingForLock
         \<and> \<not> is_processing (shared s) (task_group (tasks s ! i)) (task_video (tasks s ! i))
         \<and> first_waiter s (task_key (tasks s ! i)) = Some i
      then (let t = tasks s ! i
            in case acquire_segment (shared s) (task_group t) (task_video t) t_recheck t_mark of
                 (p, st') \<Rightarrow>
                   Some \<lparr>shared = st', tasks = set_pc (tasks s) i p,
                         waiting = remove1 i (waiting s)\<rparr>)
      else None)"
| "step s (Exit i) =
     (if i < length (tasks s) \<and> task_pc (tasks s ! i) = InSection
      then (let t = tasks s ! i
            in Some \<lparr>shared = exit_segment (shared s) (task_group t) (task_video t),
                     tasks = set_pc (tasks s) i (Finished Completed),
                     waiting = waiting s\<rparr>)
      else None)"

fun run :: "system \<Rightarrow> sched list \<Rightarrow> system option" where
  "run s [] = Some s"
| "run s (e # es) = (case step s e of None \<Rightarrow> None | Some s' \<Rightarrow> run s' es)"

text \<open>The module as imported: both tables empty, no task started.\<close>

definition fresh_task :: "matcher \<Rightarrow> int \<Rightarrow> string \<Rightarrow> task" where
  "fresh_task m g v = \<lparr>task_matcher = m, task_group = g, task_video = v, task_pc = NotStarted\<rparr>"

definition initial :: "(matcher \<times> int \<times> string) list \<Rightarrow> system" where
  "initial reqs =
     \<lparr>shared = \<lparr>last_processed = Map.empty, processing_locks = Map.empty\<rparr>,
      tasks = map (\<lambda>(m, g, v). fresh_task m g v) reqs,
      waiting = []\<rparr>"

text \<open>Task \<open>i\<close> is inside the guarded section of key \<open>k\<close>.\<close>

definition in_section :: "system \<Rightarrow> nat \<Rightarrow> resource_key \<Rightarrow> bool" where
  "in_section s i k =
     (i < length (tasks s) \<and> task_pc (tasks s ! i) = InSection
      \<and> (task_group (tasks s ! i), task_video (tasks s ! i)) = k)"

text \<open>
  The lock of a key is held exactly while some task is inside the guarded section of that key,
  and no two tasks are inside the guarded section of one key.
\<close>

definition lock_inv :: "system \<Rightarrow> bool" where
  "lock_inv s =
     ((\<forall>g v. is_processing (shared s) g v = (\<exists>i. in_section s i (g, v)))
      \<and> (\<forall>i j k. in_section s i k \<and> in_section s j k \<longrightarrow> i = j))"

section \<open>The filter configuration store (\<^verbatim>\<open>matchers/filter.py\<close>, newer generation)\<close>

datatype source = Bilibili_source | Douyin_source | Ytb_source

definition SOURCE_TYPES :: "source list" where
  "SOURCE_TYPES = [Bilibili_source, Douyin_source, Ytb_source]"

text \<open>The string of a \<^verbatim>\<open>SourceType\<close> literal.\<close>

definition source_name :: "source \<Rightarrow> string" where
  "source_name s = (case s of Bilibili_source \<Rightarrow> ''bilibili'' | Douyin_source \<Rightarrow> ''douyin''
                    | Ytb_source \<Rightarrow> ''ytb'')"

text \<open>
  \<^verbatim>\<open>SOURCE_ALIASES\<close>, in the order of the dictionary literal. The aliases written in Chinese
  are given by their UTF-8 bytes.
\<close>

definition SOURCE_ALIASES :: "(source \<times> string list) list" where
  "SOURCE_ALIASES =
     [(Bilibili_source, [''bilibili'', ''b23'', [CHR 0x62, CHR 0xE7, CHR 0xAB, CHR 0x99],
                         [CHR 0x42, CHR 0xE7, CHR 0xAB, CHR 0x99]]),
      (Douyin_source, [''douyin'', [CHR 0xE6, CHR 0x8A, CHR 0x96, CHR 0xE9, CHR 0x9F, CHR 0xB3],
                       ''v.douyin'']),
      (Ytb_source, [''ytb'', [CHR 0xE6, CHR 0xB2, CHR 0xB9, CHR 0xE7, CHR 0xAE, CHR 0xA1],
                    ''youtube'', ''youtu.be''])]"

record FilterItem =
  disabled_groups :: "int list"

record FilterConfig =
  filter_dict :: "source \<rightharpoonup> FilterItem"
  do_not_download_media_groups :: "int list"
  bili_auto_download_when_disabled_groups :: "int list"

text \<open>\<^verbatim>\<open>FilterItem()\<close> and \<^verbatim>\<open>FilterConfig()\<close>: the default factories of the fields.\<close>

definition FilterItem_default :: FilterItem where
  "FilterItem_default = \<lparr>disabled_groups = []\<rparr>"

definition FilterConfig_default :: FilterConfig where
  "FilterConfig_default =
     \<lparr>filter_dict = map_of (map (\<lambda>k. (k, FilterItem_default)) SOURCE_TYPES),
      do_not_download_media_groups = [],
      bili_auto_download_when_disabled_groups = []\<rparr>"

text \<open>
  The module state. A Python \<^verbatim>\<open>set[int]\<close> is the duplicate-free list of its members in
  the order in which the interpreter iterates over it; that order is not specified, and the
  properties below compare such lists as sets.
\<close>

record filter_state =
  disabled_group_set :: "int list"
  filter_config :: FilterConfig

subsection \<open>JSON documents and the two data files\<close>

text \<open>
  \<^verbatim>\<open>json.dumps\<close>/\<^verbatim>\<open>json.loads\<close> and pydantic's \<^verbatim>\<open>model_dump_json\<close>/\<^verbatim>\<open>model_validate_json\<close>
  are library code. A file that holds JSON text is modelled by the document the text denotes;
  any other content is \<open>NotJson\<close>. Numbers are integers, the only numbers the module writes.
\<close>

datatype json =
    JNull
  | JBool bool
  | JInt int
  | JStr string
  | JArr "json list"
  | JObj "(string \<times> json) list"

datatype content = Doc json | NotJson string

text \<open>
  \<^verbatim>\<open>store.get_plugin_data_file(DISABLED_GROUPS)\<close> and
  \<^verbatim>\<open>store.get_plugin_data_file(FILTER_CONFIG_FILE)\<close>: two files, each absent or with content.
\<close>

record files =
  disabled_groups_file :: "content option"
  filter_config_file :: "content option"

text \<open>A member of a parsed object: the last occurrence of a repeated key wins.\<close>

definition member :: "(string \<times> json) list \<Rightarrow> string \<Rightarrow> json option" where
  "member kvs k = map_of (rev kvs) k"

text \<open>\<^verbatim>\<open>list[int]\<close> to JSON and back.\<close>

definition dump_int_list :: "int list \<Rightarrow> json" where
  "dump_int_list xs = JArr (map JInt xs)"

fun int_of_json :: "json \<Rightarrow> int option" where
  "int_of_json (JInt i) = Some i"
| "int_of_json _ = None"

fun those_opts :: "'a option list \<Rightarrow> 'a list option" where
  "those_opts [] = Some []"
| "those_opts (None # _) = None"
| "those_opts (Some x # xs) = (case those_opts xs of None \<Rightarrow> None | Some ys \<Rightarrow> Some (x # ys))"

text \<open>
  Validation of a \<^verbatim>\<open>list[int]\<close> field. Only integers are accepted; pydantic's lax mode would
  also convert some other values (numeric strings, for one), which no document written by
  \<^verbatim>\<open>save_disabled_groups\<close> contains.
\<close>

fun validate_int_list :: "json \<Rightarrow> int list option" where
  "validate_int_list (JArr xs) = those_opts (map int_of_json xs)"
| "validate_int_list _ = None"

definition dump_FilterItem :: "FilterItem \<Rightarrow> json" where
  "dump_FilterItem it = JObj [(''disabled_groups'', dump_int_list (disabled_groups it))]"

fun validate_FilterItem :: "json \<Rightarrow> FilterItem option" where
  "validate_FilterItem (JObj kvs) =
     (case member kvs ''disabled_groups'' of
        None \<Rightarrow> Some FilterItem_default
      | Some j \<Rightarrow> (case validate_int_list j of
                     None \<Rightarrow> None
                   | Some xs \<Rightarrow> Some \<lparr>disabled_groups = xs\<rparr>))"
| "validate_FilterItem _ = None"

text \<open>A key of \<^verbatim>\<open>filter_dict\<close> must be one of the three literals.\<close>

definition source_of_name :: "string \<Rightarrow> source option" where
  "source_of_name n = find (\<lambda>s. source_name s = n) SOURCE_TYPES"

fun validate_filter_entries :: "(string \<times> json) list \<Rightarrow> (source \<rightharpoonup> FilterItem) option" where
  "validate_filter_entries [] = Some Map.empty"
| "validate_filter_entries ((k, j) # kvs) =
     (case source_of_name k of
        None \<Rightarrow> None
      | Some s \<Rightarrow>
          (case validate_FilterItem j of
             None \<Rightarrow> None
           | Some it \<Rightarrow>
               (case validate_filter_entries kvs of
                  None \<Rightarrow> None
                | Some m \<Rightarrow> Some (if s \<in> dom m then m else m(s \<mapsto> it)))))"

fun validate_filter_dict :: "json \<Rightarrow> (source \<rightharpoonup> FilterItem) option" where
  "validate_filter_dict (JObj kvs) = validate_filter_entries kvs"
| "validate_filter_dict _ = None"

text \<open>\<^verbatim>\<open>filter_config.model_dump_json()\<close>: the three fields, the dictionary with its keys.\<close>

definition dump_filter_dict :: "(source \<rightharpoonup> FilterItem) \<Rightarrow> json" where
  "dump_filter_dict d =
     JObj (concat (map (\<lambda>s. case d s of None \<Rightarrow> [] | Some it \<Rightarrow> [(source_name s, dump_FilterItem it)])
                       SOURCE_TYPES))"

definition model_dump_json :: "FilterConfig \<Rightarrow> json" where
  "model_dump_json c =
     JObj [(''filter_dict'', dump_filter_dict (filter_dict c)),
           (''do_not_download_media_groups'', dump_int_list (do_not_download_media_groups c)),
           (''bili_auto_download_when_disabled_groups'',
              dump_int_list (bili_auto_download_when_disabled_groups c))]"

text \<open>
  \<^verbatim>\<open>FilterConfig.model_validate_json(text)\<close>: \<open>None\<close> stands for the raised validation error.
  A missing field takes its default; members that are no fields are ignored.
\<close>

definition validate_field :: "(string \<times> json) list \<Rightarrow> string \<Rightarrow> (json \<Rightarrow> 'a option) \<Rightarrow> 'a \<Rightarrow> 'a option" where
  "validate_field kvs k validate dflt = (case member kvs k of None \<Rightarrow> Some dflt | Some j \<Rightarrow> validate j)"

fun model_validate_json :: "content \<Rightarrow> FilterConfig option" where
  "model_validate_json (Doc (JObj kvs)) =
     (case validate_field kvs ''filter_dict'' validate_filter_dict (filter_dict FilterConfig_default) of
        None \<Rightarrow> None
      | Some d \<Rightarrow>
          (case validate_field kvs ''do_not_download_media_groups'' validate_int_list [] of
             None \<Rightarrow> None
           | Some nd \<Rightarrow>
               (case validate_field kvs ''bili_auto_download_when_disabled_groups'' validate_int_list [] of
                  None \<Rightarrow> None
                | Some ad \<Rightarrow>
                    Some \<lparr>filter_dict = d, do_not_download_media_groups = nd,
                          bili_auto_download_when_disabled_groups = ad\<rparr>)))"
| "model_validate_json _ = None"

subsection \<open>Loading and saving\<close>

text \<open>
  \<^verbatim>\<open>set(json.loads(data_file.read_text()))\<close>. A document that is not a list of integers is
  never written by this module; the model reports it as an error.
\<close>

definition load_or_initialize_set :: "files \<Rightarrow> (exn + int list) \<times> files" where
  "load_or_initialize_set fs =
     (let fs1 = (if disabled_groups_file fs = None
                 then fs\<lparr>disabled_groups_file := Some (Doc (JArr []))\<rparr> else fs)
      in case disabled_groups_file fs1 of
           Some (Doc j) \<Rightarrow>
             (case validate_int_list j of
                Some xs \<Rightarrow> (Inr (remdups xs), fs1)
              | None \<Rightarrow> (Inl (ValueError ''disabled groups''), fs1))
         | _ \<Rightarrow> (Inl (ValueError ''disabled groups''), fs1))"

text \<open>\<^verbatim>\<open>config.filter_dict.setdefault(source, FilterItem())\<close> for every source.\<close>

definition setdefault_sources :: "FilterConfig \<Rightarrow> FilterConfig" where
  "setdefault_sources c =
     c\<lparr>filter_dict := foldl (\<lambda>d s. if s \<in> dom d then d else d(s \<mapsto> FilterItem_default))
                           (filter_dict c) SOURCE_TYPES\<rparr>"

definition load_filter_config :: "files \<Rightarrow> FilterConfig \<times> files" where
  "load_filter_config fs =
     (case filter_config_file fs of
        None \<Rightarrow>
          (FilterConfig_default,
           fs\<lparr>filter_config_file := Some (Doc (model_dump_json FilterConfig_default))\<rparr>)
      | Some text \<Rightarrow>
          (let config = (case model_validate_json text of
                           Some c \<Rightarrow> c
                         | None \<Rightarrow> FilterConfig_default)
           in (setdefault_sources config, fs)))"

definition save_disabled_groups :: "filter_state \<Rightarrow> files \<Rightarrow> files" where
  "save_disabled_groups st fs =
     fs\<lparr>disabled_groups_file := Some (Doc (dump_int_list (disabled_group_set st))),
        filter_config_file := Some (Doc (model_dump_json (filter_config st)))\<rparr>"

subsection \<open>The rules\<close>

text \<open>\<^verbatim>\<open>filter_config.filter_dict.get(source, FilterItem()).disabled_groups\<close>\<close>

definition disabled_groups_of :: "FilterConfig \<Rightarrow> source \<Rightarrow> int list" where
  "disabled_groups_of c s =
     disabled_groups (case filter_dict c s of None \<Rightarrow> FilterItem_default | Some it \<Rightarrow> it)"

definition is_not_in_disabled_groups :: "filter_state \<Rightarrow> event \<Rightarrow> bool" where
  "is_not_in_disabled_groups st ev =
     (case ev of
        GroupMessageEvent g _ \<Rightarrow> g \<notin> set (disabled_group_set st)
      | PrivateMessageEvent _ \<Rightarrow> True)"

definition is_not_in_disabled_groups_by_source :: "filter_state \<Rightarrow> event \<Rightarrow> source \<Rightarrow> bool" where
  "is_not_in_disabled_groups_by_source st ev s =
     (case ev of
        PrivateMessageEvent _ \<Rightarrow> True
      | GroupMessageEvent g _ \<Rightarrow> g \<notin> set (disabled_groups_of (filter_config st) s))"

text \<open>
  The loop of \<^verbatim>\<open>is_not_in_disabled_groups_by_source_alias\<close> over the items of the alias table.
\<close>

fun alias_loop :: "filter_state \<Rightarrow> event \<Rightarrow> string \<Rightarrow> (source \<times> string list) list \<Rightarrow> bool" where
  "alias_loop st ev alias [] = True"
| "alias_loop st ev alias ((s, aliases) # rest) =
     (if alias \<in> set aliases then is_not_in_disabled_groups_by_source st ev s
      else alias_loop st ev alias rest)"

text \<open>
  Newer generation:
  \<^verbatim>\<open>
  def is_not_in_disabled_groups_by_source_alias(event, alias: str) -> bool:
      for source, aliases in SOURCE_ALIASES.items(): ...
  \<close>
\<close>

definition is_not_in_disabled_groups_by_source_alias ::
    "filter_state \<Rightarrow> event \<Rightarrow> string \<Rightarrow> exn + bool" where
  "is_not_in_disabled_groups_by_source_alias st ev alias = Inr (alias_loop st ev alias SOURCE_ALIASES)"

text \<open>
  Older generation: the table is the module-level name \<^verbatim>\<open>source_alias\<close>, and the function's
  parameter has the same name, so inside the body the name is the string argument:
  \<^verbatim>\<open>
  def is_not_in_disabled_groups_by_source_alias(event, source_alias: str) -> bool:
      for source, aliases in source_alias.items():
          if source_alias in aliases: ...
  \<close>
  A value bound to a name is a string or the alias table; \<^verbatim>\<open>.items()\<close> exists on the table
  only.
\<close>

datatype pyval = PyStr string | PyAliasTable "(source \<times> string list) list"

definition py_items :: "pyval \<Rightarrow> exn + (source \<times> string list) list" where
  "py_items v =
     (case v of
        PyAliasTable t \<Rightarrow> Inr t
      | PyStr _ \<Rightarrow> Inl (AttributeError ''items''))"

definition is_not_in_disabled_groups_by_source_alias_old ::
    "filter_state \<Rightarrow> event \<Rightarrow> string \<Rightarrow> exn + bool" where
  "is_not_in_disabled_groups_by_source_alias_old st ev source_alias =
     (case py_items (PyStr source_alias) of
        Inl e \<Rightarrow> Inl e
      | Inr items \<Rightarrow> Inr (alias_loop st ev source_alias items))"
section \<open>Properties of the rate/dedup table\<close>

lemma delete_expired_apply:
  "delete_expired lp now k =
     (case lp k of None \<Rightarrow> None | Some t \<Rightarrow> if now - t > 300 then None else Some t)"
  by (simp add: delete_expired_def is_expired_def RATE_LIMIT_SECONDS_def split: option.split)

lemma should_process_video_table:
  "snd (should_process_video lp now g v) = delete_expired lp now"
  by (simp add: should_process_video_def Let_def split: option.split)

lemma should_process_video_result:
  "fst (should_process_video lp now g v) =
     (case lp (g, v) of None \<Rightarrow> True | Some t \<Rightarrow> 300 \<le> now - t)"
  by (auto simp: should_process_video_def Let_def delete_expired_apply RATE_LIMIT_SECONDS_def
      split: option.split)

text \<open>
  Claim C2. After \<^verbatim>\<open>mark_as_processed(k)\<close> at clock reading \<open>t0\<close>, a call of
  \<^verbatim>\<open>should_process_video(k)\<close> at clock reading \<open>t\<close> returns false when
  \<open>t - t0 < 300\<close> and true when \<open>t - t0 \<ge> 300\<close>, and so does a call on any later table
  that still holds the mark's record for the key; and every call of
  \<^verbatim>\<open>should_process_video\<close> removes from the table exactly the keys whose entry is older
  than 300 seconds and leaves every other entry as it was.
\<close>

theorem rate_window_and_sweep:
  "(t - t0 < RATE_LIMIT_SECONDS \<longrightarrow>
      fst (should_process_video (mark_as_processed lp t0 g v) t g v) = False)
   \<and> (t - t0 \<ge> RATE_LIMIT_SECONDS \<longrightarrow>
      fst (should_process_video (mark_as_processed lp t0 g v) t g v) = True)
   \<and> (\<forall>tbl. tbl (g, v) = Some t0 \<longrightarrow>
        fst (should_process_video tbl t g v) = (t - t0 \<ge> RATE_LIMIT_SECONDS))
   \<and> dom (snd (should_process_video lp' now g' v')) = dom lp' - expired_keys lp' now
   \<and> (\<forall>k t'. lp' k = Some t' \<and> \<not> now - t' > RATE_LIMIT_SECONDS \<longrightarrow>
        snd (should_process_video lp' now g' v') k = Some t')
   \<and> (\<forall>k t'. lp' k = Some t' \<and> now - t' > RATE_LIMIT_SECONDS \<longrightarrow>
        snd (should_process_video lp' now g' v') k = None)"
proof -
  have gen: "\<forall>tbl. tbl (g, v) = Some t0 \<longrightarrow>
        fst (should_process_video tbl t g v) = (t - t0 \<ge> RATE_LIMIT_SECONDS)"
    by (simp add: should_process_video_result RATE_LIMIT_SECONDS_def)
  have res: "fst (should_process_video (mark_as_processed lp t0 g v) t g v) = (300 \<le> t - t0)"
    by (simp add: should_process_video_result mark_as_processed_def)
  have d: "dom (snd (should_process_video lp' now g' v')) = dom lp' - expired_keys lp' now"
    by (auto simp: should_process_video_table delete_expired_def expired_keys_def is_expired_def
        split: if_splits option.splits)
  have keep: "\<forall>k t'. lp' k = Some t' \<and> \<not> now - t' > RATE_LIMIT_SECONDS \<longrightarrow>
        snd (should_process_video lp' now g' v') k = Some t'"
    by (simp add: should_process_video_table delete_expired_apply RATE_LIMIT_SECONDS_def)
  have drop: "\<forall>k t'. lp' k = Some t' \<and> now - t' > RATE_LIMIT_SECONDS \<longrightarrow>
        snd (should_process_video lp' now g' v') k = None"
    by (simp add: should_process_video_table delete_expired_apply RATE_LIMIT_SECONDS_def)
  from res gen d keep drop show ?thesis
    by (simp add: RATE_LIMIT_SECONDS_def)
qed

theorem rate_window_and_sweep_witness:
  "fst (should_process_video (mark_as_processed Map.empty 1000 7 ''BV1xx411c7mD'') 1299 7 ''BV1xx411c7mD'') = False
   \<and> fst (should_process_video (mark_as_processed Map.empty 1000 7 ''BV1xx411c7mD'') 1300 7 ''BV1xx411c7mD'') = True
   \<and> snd (should_process_video [(1, ''a'') \<mapsto> 0, (2, ''b'') \<mapsto> 700] 1000 7 ''c'') (2, ''b'') = Some 700
   \<and> snd (should_process_video [(1, ''a'') \<mapsto> 0, (2, ''b'') \<mapsto> 700] 1000 7 ''c'') (1, ''a'') = None"
proof -
  let ?lp = "[(1::int, ''a'') \<mapsto> 0::real, (2, ''b'') \<mapsto> 700]"
  have a: "fst (should_process_video (mark_as_processed Map.empty 1000 7 ''BV1xx411c7mD'') 1299 7 ''BV1xx411c7mD'') = False"
    using rate_window_and_sweep [of 1299 1000 Map.empty 7 "''BV1xx411c7mD''" ?lp 1000 7 "''c''"]
    by (simp add: RATE_LIMIT_SECONDS_def)
  have b: "fst (should_process_video (mark_as_processed Map.empty 1000 7 ''BV1xx411c7mD'') 1300 7 ''BV1xx411c7mD'') = True"
    using rate_window_and_sweep [of 1300 1000 Map.empty 7 "''BV1xx411c7mD''" ?lp 1000 7 "''c''"]
    by (simp add: RATE_LIMIT_SECONDS_def)
  have c: "snd (should_process_video ?lp 1000 7 ''c'') (2, ''b'') = Some 700"
    using rate_window_and_sweep [of 1300 1000 Map.empty 7 "''BV1xx411c7mD''" ?lp 1000 7 "''c''"]
    by (simp add: RATE_LIMIT_SECONDS_def)
  have d: "snd (should_process_video ?lp 1000 7 ''c'') (1, ''a'') = None"
    using rate_window_and_sweep [of 1300 1000 Map.empty 7 "''BV1xx411c7mD''" ?lp 1000 7 "''c''"]
    by (simp add: RATE_LIMIT_SECONDS_def)
  from a b c d show ?thesis by simp
qed


section \<open>Properties of the resolution of a text fragment\<close>


lemma self_redirect_is_no_match:
  assumes "keyword = ''b23'' \<or> keyword = ''bili2233''"
      and "PATTERNS keyword = Some pat"
      and "re_search pat txt = Some matched"
      and "redirect (group0 matched) = Inr (group0 matched)"
  shows "parse_video_id_from_text redirect txt keyword = Inr None"
  using assms by (auto simp: parse_video_id_from_text_def Let_def)

lemmas pattern_defs =
  PATTERNS_def match_at_def page_tail_def empty_groups_def bv_chars_def letter_chars_def
  digit_chars_def space_chars_def url_chars_def page_param_def str_of_group_def

text \<open>
  Claim C5 says that \<^verbatim>\<open>parse_video_id_from_text\<close> returns \<^verbatim>\<open>None\<close> when the hop of a
  short link yields the same URL (see \<open>self_redirect_is_no_match\<close>), and that whenever the
  resolved URL contains an embedded \<^verbatim>\<open>/BV\<close> or \<^verbatim>\<open>/av\<close> identifier, that id and its kind
  replace the ones of the keyword match. The second part fails for a URL in which \<^verbatim>\<open>/BV\<close>
  occurs without a well-formed id after it: the code then looks for no \<^verbatim>\<open>/av\<close> id. The URL
  below contains the id \<^verbatim>\<open>/av170001\<close>, which the pattern of \<^verbatim>\<open>/av\<close> finds, and the result
  has the empty id and the kind \<^verbatim>\<open>BV\<close>, whatever the redirect does.
\<close>

theorem embedded_av_id_not_taken:
  "parse_video_id_from_text redirect ''https://www.bilibili.com/video/av170001?from=/BV'' ''bilibili''
     = Inr (Some (''https://www.bilibili.com/video/av170001?from=/BV'', [], 1, ''BV''))
   \<and> (\<exists>m. re_search (Seq (Lit ''/av'') (Seq (Grp 1 (Rep digit_chars 6 None)) (Grp 2 (Lit []))))
              ''https://www.bilibili.com/video/av170001?from=/BV'' = Some m
            \<and> groups m 1 = Some ''170001'')
   \<and> PATTERNS ''/av'' = Some (Seq (Lit ''/av'') (Seq (Grp 1 (Rep digit_chars 6 None)) (Grp 2 (Lit []))))"
proof -
  have a: "parse_video_id_from_text redirect ''https://www.bilibili.com/video/av170001?from=/BV'' ''bilibili''
     = Inr (Some (''https://www.bilibili.com/video/av170001?from=/BV'', [], 1, ''BV''))"
    by (simp add: parse_video_id_from_text_def resolve_id_and_page_def pattern_defs Let_def)
  have b: "\<exists>m. re_search (Seq (Lit ''/av'') (Seq (Grp 1 (Rep digit_chars 6 None)) (Grp 2 (Lit []))))
              ''https://www.bilibili.com/video/av170001?from=/BV'' = Some m
            \<and> groups m 1 = Some ''170001''"
    by (simp add: pattern_defs)
  have c: "PATTERNS ''/av'' = Some (Seq (Lit ''/av'') (Seq (Grp 1 (Rep digit_chars 6 None)) (Grp 2 (Lit []))))"
    by (simp add: PATTERNS_def)
  from a b c show ?thesis by blast
qed

lemma short_link_embedded_av_id_not_taken:
  "parse_video_id_from_text (\<lambda>u. Inr ''https://www.bilibili.com/video/av170001?from=/BV'')
     ''https://b23.tv/abc'' ''b23''
     = Inr (Some (''https://www.bilibili.com/video/av170001?from=/BV'', [], 1, ''BV''))"
  by (simp add: parse_video_id_from_text_def resolve_id_and_page_def pattern_defs Let_def)

lemma short_link_embedded_av_id_taken:
  "parse_video_id_from_text (\<lambda>u. Inr ''https://www.bilibili.com/video/av170001?p=2'')
     ''https://b23.tv/abc'' ''b23''
     = Inr (Some (''https://www.bilibili.com/video/av170001?p=2'', ''170001'', 2, ''av''))"
  by (simp add: parse_video_id_from_text_def resolve_id_and_page_def pattern_defs Let_def py_int_def
      digit_value_def)


section \<open>Properties of the media assembly\<close>


lemma io_bind_return [simp]: "io_bind (io_return x) f = f x"
  by (simp add: io_bind_def io_return_def)

lemma io_bind_Inr: "m tr = (Inr x, tr') \<Longrightarrow> io_bind m f tr = f x tr'"
  by (simp add: io_bind_def)

lemma io_bind_Inl: "m tr = (Inl e, tr') \<Longrightarrow> io_bind m f tr = (Inl e, tr')"
  by (simp add: io_bind_def)

lemma send_apply: "send w m msg tr = (send_result w tr m msg, tr @ [Send m msg])"
  by (simp add: send_def perform_def)

lemma encode_apply:
  "encode_video_to_h264 w p tr = (encode_video_to_h264_result w p, tr @ [EncodeVideoToH264 p])"
  by (simp add: encode_video_to_h264_def perform_def)

lemma retry_matching:
  assumes "send_result w tr m (VideoSeg p) = Inl (ActionFailed info)"
      and "suffix thumbnail_suffix (info_message info)"
  shows "send_video_with_retry w m p tr =
     (case encode_video_to_h264_result w p of
        Inl e \<Rightarrow> (Inl e, tr @ [Send m (VideoSeg p), EncodeVideoToH264 p])
      | Inr h \<Rightarrow>
          (send_result w (tr @ [Send m (VideoSeg p), EncodeVideoToH264 p]) m (VideoSeg h),
           tr @ [Send m (VideoSeg p), EncodeVideoToH264 p, Send m (VideoSeg h)]))"
  using assms
  by (simp add: send_video_with_retry_def try_except_ActionFailed_def send_apply Let_def
      io_bind_def encode_apply split: sum.split)

lemma retry_other:
  assumes "send_result w tr m (VideoSeg p) = Inl (ActionFailed info)"
      and "\<not> suffix thumbnail_suffix (info_message info)"
  shows "send_video_with_retry w m p tr = (Inl (ActionFailed info), tr @ [Send m (VideoSeg p)])"
  using assms
  by (simp add: send_video_with_retry_def try_except_ActionFailed_def send_apply Let_def
      io_raise_def)

lemma str_int_1: "str_int 1 = ''1''"
  by (simp add: str_int_def digit_chars_def)

lemma obtain_cached:
  "path_exists_result w (path_join (plugin_cache_dir cfg) (video_id @ ''-'' @ str_int page_num @ ''.mp4''))
   \<Longrightarrow> obtain_video_file cfg w info video_id page_num tr =
       (Inr (path_join (plugin_cache_dir cfg) (video_id @ ''-'' @ str_int page_num @ ''.mp4'')),
        tr @ [PathExists (path_join (plugin_cache_dir cfg) (video_id @ ''-'' @ str_int page_num @ ''.mp4''))])"
  by (simp add: obtain_video_file_def Let_def path_exists_def perform_def io_bind_def io_return_def)

text \<open>
  Claim C4. In \<^verbatim>\<open>download_and_send_video\<close>, once the video file \<open>p\<close> is there and the
  upload raises \<^verbatim>\<open>ActionFailed\<close>: if the message ends with \<^verbatim>\<open>.png'\<close>, the file is
  re-encoded once and the re-encoded file is uploaded once, and the outcome of that second
  upload is the outcome of the call, so a failure of it is raised and nothing is tried again
  (if the re-encoding itself raises, that exception is raised and nothing is uploaded again);
  if the message does not end with \<^verbatim>\<open>.png'\<close>, the same exception is raised again right
  after the one upload.
\<close>

theorem upload_retry_once:
  assumes gate: "\<not> video_duration info > DURATION_MAXIMUM cfg"
      and cached: "obtain_video_file cfg w info video_id page_num tr = (Inr p, tr1)"
      and fail: "send_result w tr1 m (VideoSeg p) = Inl (ActionFailed failure)"
  shows "(suffix thumbnail_suffix (info_message failure) \<longrightarrow>
            (\<forall>h. encode_video_to_h264_result w p = Inr h \<longrightarrow>
               download_and_send_video cfg w m info video_id page_num tr =
                 (case send_result w (tr1 @ [Send m (VideoSeg p), EncodeVideoToH264 p]) m (VideoSeg h) of
                    Inl e \<Rightarrow> Inl e | Inr _ \<Rightarrow> Inr True,
                  tr1 @ [Send m (VideoSeg p), EncodeVideoToH264 p, Send m (VideoSeg h)]))
          \<and> (\<forall>e. encode_video_to_h264_result w p = Inl e \<longrightarrow>
               download_and_send_video cfg w m info video_id page_num tr =
                 (Inl e, tr1 @ [Send m (VideoSeg p), EncodeVideoToH264 p])))
     \<and> (\<not> suffix thumbnail_suffix (info_message failure) \<longrightarrow>
            download_and_send_video cfg w m info video_id page_num tr =
              (Inl (ActionFailed failure), tr1 @ [Send m (VideoSeg p)]))"
proof -
  have d: "download_and_send_video cfg w m info video_id page_num tr =
           io_bind (send_video_with_retry w m p) (\<lambda>_. io_return True) tr1"
    using gate cached by (simp add: download_and_send_video_def io_bind_Inr)
  show ?thesis
  proof (cases "suffix thumbnail_suffix (info_message failure)")
    case True
    from retry_matching [OF fail True] show ?thesis
      using True by (auto simp: d io_bind_def io_return_def split: sum.splits)
  next
    case False
    from retry_other [OF fail False] show ?thesis
      using False by (simp add: d io_bind_def)
  qed
qed


theorem upload_retry_once_witness:
  "download_and_send_video sample_config
     (calm_world\<lparr>path_exists_result := (\<lambda>p. True),
        send_result := (\<lambda>tr m msg. Inl (ActionFailed [(''message'', ''open x.png'' @ [CHR 0x27])]))\<rparr>)
     Bilibili sample_info ''BV1xx411c7mD'' 1 []
   = (Inl (ActionFailed [(''message'', ''open x.png'' @ [CHR 0x27])]),
      [PathExists ''cache/BV1xx411c7mD-1.mp4'',
       Send Bilibili (VideoSeg ''cache/BV1xx411c7mD-1.mp4''),
       EncodeVideoToH264 ''cache/BV1xx411c7mD-1.mp4'',
       Send Bilibili (VideoSeg ''cache/BV1xx411c7mD-1.mp4.h264'')])
   \<and> download_and_send_video sample_config
     (calm_world\<lparr>path_exists_result := (\<lambda>p. True),
        send_result := (\<lambda>tr m msg. Inl (ActionFailed [(''message'', ''rich media transfer failed'')]))\<rparr>)
     Bilibili sample_info ''BV1xx411c7mD'' 1 []
   = (Inl (ActionFailed [(''message'', ''rich media transfer failed'')]),
      [PathExists ''cache/BV1xx411c7mD-1.mp4'',
       Send Bilibili (VideoSeg ''cache/BV1xx411c7mD-1.mp4'')])"
proof -
  let ?p = "''cache/BV1xx411c7mD-1.mp4''"
  let ?w1 = "calm_world\<lparr>path_exists_result := (\<lambda>p. True),
        send_result := (\<lambda>tr m msg. Inl (ActionFailed [(''message'', ''open x.png'' @ [CHR 0x27])]))\<rparr>"
  let ?w2 = "calm_world\<lparr>path_exists_result := (\<lambda>p. True),
        send_result := (\<lambda>tr m msg. Inl (ActionFailed [(''message'', ''rich media transfer failed'')]))\<rparr>"
  have g: "\<not> video_duration sample_info > DURATION_MAXIMUM sample_config"
    by (simp add: sample_info_def sample_config_def)
  have o1: "obtain_video_file sample_config ?w1 sample_info ''BV1xx411c7mD'' 1 [] = (Inr ?p, [PathExists ?p])"
    using obtain_cached [of ?w1 sample_config "''BV1xx411c7mD''" 1 sample_info "[]"]
    by (simp add: str_int_1 path_join_def sample_config_def)
  have o2: "obtain_video_file sample_config ?w2 sample_info ''BV1xx411c7mD'' 1 [] = (Inr ?p, [PathExists ?p])"
    using obtain_cached [of ?w2 sample_config "''BV1xx411c7mD''" 1 sample_info "[]"]
    by (simp add: str_int_1 path_join_def sample_config_def)
  have f1: "send_result ?w1 [PathExists ?p] Bilibili (VideoSeg ?p)
            = Inl (ActionFailed [(''message'', ''open x.png'' @ [CHR 0x27])])"
    by simp
  have f2: "send_result ?w2 [PathExists ?p] Bilibili (VideoSeg ?p)
            = Inl (ActionFailed [(''message'', ''rich media transfer failed'')])"
    by simp
  have s1: "suffix thumbnail_suffix (info_message [(''message'', ''open x.png'' @ [CHR 0x27])])"
    by (simp add: thumbnail_suffix_def info_message_def suffix_def)
  have s2: "\<not> suffix thumbnail_suffix (info_message [(''message'', ''rich media transfer failed'')])"
    by (simp add: thumbnail_suffix_def info_message_def suffix_to_prefix)
  have e1: "encode_video_to_h264_result ?w1 ?p = Inr (?p @ ''.h264'')"
    by (simp add: calm_world_def)
  from upload_retry_once [OF g o1 f1] s1 e1
  have a: "download_and_send_video sample_config ?w1 Bilibili sample_info ''BV1xx411c7mD'' 1 []
     = (Inl (ActionFailed [(''message'', ''open x.png'' @ [CHR 0x27])]),
        [PathExists ?p, Send Bilibili (VideoSeg ?p), EncodeVideoToH264 ?p,
         Send Bilibili (VideoSeg (?p @ ''.h264''))])"
    by simp
  from upload_retry_once [OF g o2 f2] s2
  have b: "download_and_send_video sample_config ?w2 Bilibili sample_info ''BV1xx411c7mD'' 1 []
     = (Inl (ActionFailed [(''message'', ''rich media transfer failed'')]),
        [PathExists ?p, Send Bilibili (VideoSeg ?p)])"
    by simp
  from a b show ?thesis by simp
qed



lemma perform_apply: "perform a f tr = (f tr, tr @ [a])"
  by (simp add: perform_def)

lemma gather_downloads:
  "gather (download_file_by_stream w u1 n1) (download_file_by_stream w u2 n2) tr = (r, tr')
   \<Longrightarrow> tr' = tr @ [DownloadFileByStream u1 n1, DownloadFileByStream u2 n2]"
  by (auto simp: gather_def download_file_by_stream_def perform_apply split: sum.splits)

lemma fetch_video_file_downloads:
  assumes "fetch_video_file w info file_name video_path tr = (r, tr')"
  shows "\<exists>a rest. tr' = tr @ a # rest \<and> is_download a"
proof (cases "\<exists>a. audio_url info = Some a \<and> a \<noteq> []")
  case True
  then obtain a where a: "audio_url info = Some a" "a \<noteq> []" by blast
  obtain g tr1 where g: "gather (download_file_by_stream w (video_url info) (file_name @ ''-video.m4s''))
                                (download_file_by_stream w a (file_name @ ''-audio.m4s'')) tr = (g, tr1)"
    by (cases "gather (download_file_by_stream w (video_url info) (file_name @ ''-video.m4s''))
                                (download_file_by_stream w a (file_name @ ''-audio.m4s'')) tr") blast
  note t1 = gather_downloads [OF g]
  from assms a g have "\<exists>ext. tr' = tr1 @ ext"
    by (auto simp: fetch_video_file_def io_bind_def io_return_def merge_av_def perform_apply
        split: sum.splits prod.splits)
  with t1 show ?thesis by (auto simp: is_download_def)
next
  case False
  with assms have "tr' = tr @ [DownloadVideo (video_url info) (file_name @ ''.mp4'')]"
    by (auto simp: fetch_video_file_def download_video_def perform_apply split: option.splits if_splits)
  then show ?thesis by (simp add: is_download_def)
qed

lemma send_video_with_retry_extends:
  "send_video_with_retry w m p tr = (r, tr') \<Longrightarrow> \<exists>ext. tr' = tr @ ext"
  by (auto simp: send_video_with_retry_def try_except_ActionFailed_def send_def perform_apply
      Let_def io_raise_def io_bind_def encode_video_to_h264_def split: sum.splits exn.splits if_splits)

lemma obtain_video_file_trace:
  assumes "obtain_video_file cfg w info video_id page_num tr = (r, tr')"
  shows "\<exists>rest. tr' = tr @ PathExists (path_join (plugin_cache_dir cfg) (video_id @ ''-'' @ str_int page_num @ ''.mp4'')) # rest
          \<and> (\<not> path_exists_result w (path_join (plugin_cache_dir cfg) (video_id @ ''-'' @ str_int page_num @ ''.mp4''))
               \<longrightarrow> (\<exists>a rest'. rest = a # rest' \<and> is_download a))"
proof (cases "path_exists_result w (path_join (plugin_cache_dir cfg) (video_id @ ''-'' @ str_int page_num @ ''.mp4''))")
  case True
  with assms show ?thesis
    by (auto simp: obtain_video_file_def Let_def io_bind_def path_exists_def perform_apply io_return_def)
next
  case False
  with assms have "fetch_video_file w info (video_id @ ''-'' @ str_int page_num)
      (path_join (plugin_cache_dir cfg) (video_id @ ''-'' @ str_int page_num @ ''.mp4''))
      (tr @ [PathExists (path_join (plugin_cache_dir cfg) (video_id @ ''-'' @ str_int page_num @ ''.mp4''))]) = (r, tr')"
    by (simp add: obtain_video_file_def Let_def io_bind_def path_exists_def perform_apply)
  from fetch_video_file_downloads [OF this] False show ?thesis by auto
qed

text \<open>
  Claim C6. With \<^verbatim>\<open>DURATION_MAXIMUM = 600\<close>, a video of 601 seconds makes
  \<^verbatim>\<open>download_and_send_video\<close> return \<^verbatim>\<open>False\<close> with the trace as it was: nothing is
  downloaded, nothing already sent is touched and nothing is raised. A video of 599 seconds
  goes on to the download step: the next action is the test for the cache file, and when the
  file is missing the action after it is a download.
\<close>

theorem duration_ceiling:
  assumes "DURATION_MAXIMUM cfg = 600"
  shows "(video_duration info = 601 \<longrightarrow>
            download_and_send_video cfg w m info video_id page_num tr = (Inr False, tr))
       \<and> (video_duration info = 599 \<longrightarrow>
            (\<exists>r rest. download_and_send_video cfg w m info video_id page_num tr =
                (r, tr @ PathExists (path_join (plugin_cache_dir cfg)
                                       (video_id @ ''-'' @ str_int page_num @ ''.mp4'')) # rest)
              \<and> (\<not> path_exists_result w (path_join (plugin_cache_dir cfg)
                                            (video_id @ ''-'' @ str_int page_num @ ''.mp4''))
                   \<longrightarrow> (\<exists>a rest'. rest = a # rest' \<and> is_download a))))"
proof (intro conjI impI)
  assume "video_duration info = 601"
  with assms show "download_and_send_video cfg w m info video_id page_num tr = (Inr False, tr)"
    by (simp add: download_and_send_video_def io_return_def)
next
  assume d: "video_duration info = 599"
  let ?p = "path_join (plugin_cache_dir cfg) (video_id @ ''-'' @ str_int page_num @ ''.mp4'')"
  obtain r1 tr1 where o: "obtain_video_file cfg w info video_id page_num tr = (r1, tr1)"
    by (cases "obtain_video_file cfg w info video_id page_num tr") blast
  from obtain_video_file_trace [OF o] obtain rest where
    rest: "tr1 = tr @ PathExists ?p # rest"
      "\<not> path_exists_result w ?p \<longrightarrow> (\<exists>a rest'. rest = a # rest' \<and> is_download a)"
    by blast
  obtain r2 tr2 where res: "download_and_send_video cfg w m info video_id page_num tr = (r2, tr2)"
    by (cases "download_and_send_video cfg w m info video_id page_num tr") blast
  have "\<exists>ext. tr2 = tr1 @ ext"
  proof (cases r1)
    case (Inl e)
    with res o d assms show ?thesis
      by (simp add: download_and_send_video_def io_bind_def)
  next
    case (Inr p)
    obtain r3 tr3 where s: "send_video_with_retry w m p tr1 = (r3, tr3)"
      by (cases "send_video_with_retry w m p tr1") blast
    from send_video_with_retry_extends [OF s] obtain ext where "tr3 = tr1 @ ext" by blast
    with Inr res o d assms s show ?thesis
      by (auto simp: download_and_send_video_def io_bind_def io_return_def split: sum.splits)
  qed
  then obtain ext where "tr2 = tr1 @ ext" by blast
  with rest res
  show "\<exists>r rest. download_and_send_video cfg w m info video_id page_num tr = (r, tr @ PathExists ?p # rest)
              \<and> (\<not> path_exists_result w ?p \<longrightarrow> (\<exists>a rest'. rest = a # rest' \<and> is_download a))"
    by auto
qed


theorem duration_ceiling_witness:
  "DURATION_MAXIMUM sample_config = 600
   \<and> download_and_send_video sample_config calm_world Bilibili
         (sample_info\<lparr>video_duration := 601\<rparr>) ''BV1xx411c7mD'' 1 [] = (Inr False, [])
   \<and> (\<exists>r rest. download_and_send_video sample_config calm_world Bilibili
                     (sample_info\<lparr>video_duration := 599\<rparr>) ''BV1xx411c7mD'' 1 [] =
                   (r, PathExists ''cache/BV1xx411c7mD-1.mp4'' # rest)
                 \<and> (\<exists>a rest'. rest = a # rest' \<and> is_download a))"
proof -
  have c: "DURATION_MAXIMUM sample_config = 600"
    by (simp add: sample_config_def)
  have n: "\<not> path_exists_result calm_world p" for p
    by (simp add: calm_world_def)
  have p: "path_join (plugin_cache_dir sample_config) (''BV1xx411c7mD'' @ ''-'' @ str_int 1 @ ''.mp4'')
           = ''cache/BV1xx411c7mD-1.mp4''"
    by (simp add: path_join_def sample_config_def str_int_def digit_chars_def)
  from duration_ceiling [OF c, of "sample_info\<lparr>video_duration := 601\<rparr>" calm_world Bilibili
      "''BV1xx411c7mD''" 1 "[]"]
  have a: "download_and_send_video sample_config calm_world Bilibili
         (sample_info\<lparr>video_duration := 601\<rparr>) ''BV1xx411c7mD'' 1 [] = (Inr False, [])"
    by simp
  from duration_ceiling [OF c, of "sample_info\<lparr>video_duration := 599\<rparr>" calm_world Bilibili
      "''BV1xx411c7mD''" 1 "[]"] n
  have b: "\<exists>r rest. download_and_send_video sample_config calm_world Bilibili
                     (sample_info\<lparr>video_duration := 599\<rparr>) ''BV1xx411c7mD'' 1 [] =
                   (r, PathExists ''cache/BV1xx411c7mD-1.mp4'' # rest)
                 \<and> (\<exists>a rest'. rest = a # rest' \<and> is_download a)"
    unfolding p by simp
  from a b c show ?thesis by simp
qed

lemma duration_599_trace:
  "download_and_send_video sample_config calm_world Bilibili sample_info ''BV1xx411c7mD'' 1 [] =
     (Inr True,
      [PathExists ''cache/BV1xx411c7mD-1.mp4'',
       DownloadFileByStream ''v'' ''BV1xx411c7mD-1-video.m4s'',
       DownloadFileByStream ''a'' ''BV1xx411c7mD-1-audio.m4s'',
       MergeAv ''BV1xx411c7mD-1-video.m4s'' ''BV1xx411c7mD-1-audio.m4s'' ''cache/BV1xx411c7mD-1.mp4'',
       Send Bilibili (VideoSeg ''cache/BV1xx411c7mD-1.mp4'')])"
  by (simp add: download_and_send_video_def obtain_video_file_def fetch_video_file_def
      send_video_with_retry_def try_except_ActionFailed_def gather_def io_bind_def io_return_def
      perform_apply path_exists_def download_file_by_stream_def merge_av_def send_def Let_def
      sample_config_def sample_info_def calm_world_def path_join_def str_int_def digit_chars_def)


section \<open>Properties of the handlers\<close>


lemma check_should_process_fst:
  "fst (check_should_process st now g v) = fst (should_process_video (last_processed st) now g v)"
  by (simp add: check_should_process_def split: prod.split)

lemma check_should_process_snd:
  "snd (check_should_process st now g v) = st\<lparr>last_processed := delete_expired (last_processed st) now\<rparr>"
  using should_process_video_table [of "last_processed st" now g v]
  by (cases "should_process_video (last_processed st) now g v") (simp add: check_should_process_def)

lemma enter_guarded_eq:
  "enter_guarded st g v t_recheck t_mark =
     (if fst (should_process_video (last_processed st) t_recheck g v)
      then (True, st\<lparr>last_processed := (delete_expired (last_processed st) t_recheck)((g, v) \<mapsto> t_mark)\<rparr>)
      else (False, st\<lparr>last_processed := delete_expired (last_processed st) t_recheck\<rparr>))"
proof -
  obtain ok st1 where c: "check_should_process st t_recheck g v = (ok, st1)"
    by (cases "check_should_process st t_recheck g v") blast
  from c have ok: "ok = fst (should_process_video (last_processed st) t_recheck g v)"
    using check_should_process_fst [of st t_recheck g v] by simp
  from c have st1: "st1 = st\<lparr>last_processed := delete_expired (last_processed st) t_recheck\<rparr>"
    using check_should_process_snd [of st t_recheck g v] by simp
  show ?thesis
    by (simp add: enter_guarded_def c ok [symmetric] st1 do_mark_def mark_as_processed_def)
qed

lemma guarded_section_eq:
  "guarded_section st g v t_recheck t_mark work tr =
     (if fst (should_process_video (last_processed st) t_recheck g v)
      then (Returned (fst (work (tr @ [LockAcquire (g, v), MarkProcessed (g, v) t_mark]))),
            \<lparr>last_processed = (delete_expired (last_processed st) t_recheck)((g, v) \<mapsto> t_mark),
             processing_locks = (processing_locks st)((g, v) \<mapsto> False)\<rparr>,
            snd (work (tr @ [LockAcquire (g, v), MarkProcessed (g, v) t_mark])) @ [LockRelease (g, v)])
      else (Returned (Inr ()),
            \<lparr>last_processed = delete_expired (last_processed st) t_recheck,
             processing_locks = (processing_locks st)((g, v) \<mapsto> False)\<rparr>,
            tr @ [LockAcquire (g, v), LockRelease (g, v)]))"
  by (simp add: guarded_section_def Let_def enter_guarded_eq set_locked_def split: prod.split)


lemma async_with_lock_free:
  "\<not> is_processing st g v \<Longrightarrow>
   async_with_lock st g v t_recheck t_mark work tr = guarded_section st g v t_recheck t_mark work tr"
  by (auto simp: async_with_lock_def lookup_lock_def is_processing_def guarded_section_eq
      split: option.splits)

lemma async_with_lock_held:
  "is_processing st g v \<Longrightarrow> async_with_lock st g v t_recheck t_mark work tr = (Suspended, st, tr)"
  by (auto simp: async_with_lock_def lookup_lock_def is_processing_def split: option.splits)

lemma extends_return: "extends_trace (io_return x)"
  by (simp add: extends_trace_def io_return_def)

lemma extends_raise: "extends_trace (io_raise e)"
  by (simp add: extends_trace_def io_raise_def)

lemma extends_perform: "extends_trace (perform a f)"
  by (simp add: extends_trace_def perform_def)

lemma extends_bind:
  assumes "extends_trace m" and "\<And>x. extends_trace (f x)"
  shows "extends_trace (io_bind m f)"
  unfolding extends_trace_def
proof
  fix tr
  obtain r tr1 where m: "m tr = (r, tr1)" by (cases "m tr") blast
  from assms(1) m have p1: "prefix tr tr1" by (auto simp: extends_trace_def dest: spec [of _ tr])
  show "prefix tr (snd (io_bind m f tr))"
  proof (cases r)
    case (Inl e)
    with m p1 show ?thesis by (simp add: io_bind_def)
  next
    case (Inr x)
    from assms(2) [of x] have "prefix tr1 (snd (f x tr1))" by (simp add: extends_trace_def)
    with p1 Inr m show ?thesis by (auto simp: io_bind_def intro: prefix_order.trans)
  qed
qed

lemma extends_gather:
  assumes "extends_trace a" and "extends_trace b"
  shows "extends_trace (gather a b)"
  unfolding extends_trace_def
proof
  fix tr
  obtain ra tr1 where a: "a tr = (ra, tr1)" by (cases "a tr") blast
  obtain rb tr2 where b: "b tr1 = (rb, tr2)" by (cases "b tr1") blast
  from assms(1) a have "prefix tr tr1" by (auto simp: extends_trace_def dest: spec [of _ tr])
  moreover from assms(2) b have "prefix tr1 tr2" by (auto simp: extends_trace_def dest: spec [of _ tr1])
  ultimately have "prefix tr tr2" by (rule prefix_order.trans)
  with a b show "prefix tr (snd (gather a b tr))"
    by (simp add: gather_def split: sum.split)
qed

lemma extends_try:
  assumes "extends_trace m" and "\<And>info. extends_trace (h info)"
  shows "extends_trace (try_except_ActionFailed m h)"
  unfolding extends_trace_def
proof
  fix tr
  obtain r tr1 where m: "m tr = (r, tr1)" by (cases "m tr") blast
  from assms(1) m have p1: "prefix tr tr1" by (auto simp: extends_trace_def dest: spec [of _ tr])
  have "\<And>info. prefix tr1 (snd (h info tr1))" using assms(2) by (simp add: extends_trace_def)
  then have "\<And>info. prefix tr (snd (h info tr1))" using p1 by (blast intro: prefix_order.trans)
  with m p1 show "prefix tr (snd (try_except_ActionFailed m h tr))"
    by (simp add: try_except_ActionFailed_def split: sum.split exn.split)
qed

lemma extends_send_video_with_retry: "extends_trace (send_video_with_retry w m p)"
  unfolding send_video_with_retry_def Let_def send_def encode_video_to_h264_def
  by (intro extends_try extends_perform extends_bind) (simp add: extends_raise extends_bind extends_perform)

lemma extends_fetch_video_file: "extends_trace (fetch_video_file w info n p)"
  unfolding fetch_video_file_def download_file_by_stream_def merge_av_def download_video_def
  by (auto split: option.split prod.split
      intro!: extends_bind extends_gather extends_perform extends_return)

lemma extends_obtain_video_file: "extends_trace (obtain_video_file cfg w info v p)"
  unfolding obtain_video_file_def Let_def path_exists_def
  by (auto intro!: extends_bind extends_perform extends_return extends_fetch_video_file)

lemma extends_download_and_send_video: "extends_trace (download_and_send_video cfg w m info v p)"
  unfolding download_and_send_video_def
  by (auto intro!: extends_bind extends_return extends_obtain_video_file extends_send_video_with_retry)

lemma extends_fetch_video_info: "extends_trace (fetch_video_info w vt v p)"
  unfolding fetch_video_info_def parse_video_info_def
  by (auto split: sum.split intro!: extends_raise extends_perform)

lemma extends_bilibili_work: "extends_trace (bilibili_work cfg w keyword v p vt)"
  unfolding bilibili_work_def Let_def send_def download_img_def send_segments_def
  by (intro extends_bind extends_perform extends_fetch_video_info extends_download_and_send_video
      extends_return)

lemma extends_auto_download_work: "extends_trace (auto_download_work cfg w v p vt)"
  unfolding auto_download_work_def
  by (intro extends_bind extends_fetch_video_info extends_download_and_send_video extends_return)


lemma passes_checks_iff:
  "passes_checks st g v t_check t_recheck \<longleftrightarrow>
     fst (should_process_video (last_processed st) t_check g v)
     \<and> \<not> is_processing st g v
     \<and> fst (should_process_video (delete_expired (last_processed st) t_check) t_recheck g v)"
proof -
  obtain ok st1 where c: "check_should_process st t_check g v = (ok, st1)"
    by (cases "check_should_process st t_check g v") blast
  from c have ok: "ok = fst (should_process_video (last_processed st) t_check g v)"
    using check_should_process_fst [of st t_check g v] by simp
  from c have st1: "st1 = st\<lparr>last_processed := delete_expired (last_processed st) t_check\<rparr>"
    using check_should_process_snd [of st t_check g v] by simp
  show ?thesis
    by (simp add: passes_checks_def c ok [symmetric] st1 is_processing_def check_should_process_fst)
qed

lemma marked_is_suppressed:
  assumes "lp (g, v) = Some t_mark" and "now - t_mark < RATE_LIMIT_SECONDS"
  shows "fst (should_process_video lp now g v) = False"
  using assms by (simp add: should_process_video_result RATE_LIMIT_SECONDS_def)

lemma guarded_run:
  assumes pc: "passes_checks st g v t_check t_recheck"
      and ext: "extends_trace work"
  shows "\<exists>st' ext.
           async_with_lock (snd (check_should_process st t_check g v)) g v t_recheck t_mark work [] =
             (Returned (fst (work [LockAcquire (g, v), MarkProcessed (g, v) t_mark])), st',
              LockAcquire (g, v) # MarkProcessed (g, v) t_mark # ext @ [LockRelease (g, v)])
         \<and> last_processed st' (g, v) = Some t_mark
         \<and> processing_locks st' (g, v) = Some False"
proof -
  let ?st1 = "snd (check_should_process st t_check g v)"
  let ?tr0 = "[LockAcquire (g, v), MarkProcessed (g, v) t_mark]"
  from pc have free: "\<not> is_processing ?st1 g v"
    by (simp add: passes_checks_iff check_should_process_snd is_processing_def)
  from pc have re: "fst (should_process_video (last_processed ?st1) t_recheck g v)"
    by (simp add: passes_checks_iff check_should_process_snd)
  from ext have "prefix ?tr0 (snd (work ?tr0))" by (simp add: extends_trace_def)
  then obtain e where e: "snd (work ?tr0) = ?tr0 @ e" by (auto simp: prefix_def)
  show ?thesis
    using e re by (simp add: async_with_lock_free [OF free] guarded_section_eq)
qed

lemma bilibili_handle_proceeds:
  assumes p: "parse_video_id_from_text (redirect_result w) text keyword = Inr (Some (url, v, page_num, video_type))"
      and v: "v \<noteq> []"
      and pc: "passes_checks st (scope_id ev) v t_check t_recheck"
  shows "\<exists>st' ext.
           bilibili_handle cfg w st ev text keyword t_check t_recheck t_mark =
             (Returned (fst (bilibili_work cfg w keyword v page_num video_type
                               [LockAcquire (scope_id ev, v), MarkProcessed (scope_id ev, v) t_mark])),
              st',
              LockAcquire (scope_id ev, v) # MarkProcessed (scope_id ev, v) t_mark # ext
                @ [LockRelease (scope_id ev, v)])
         \<and> last_processed st' (scope_id ev, v) = Some t_mark
         \<and> processing_locks st' (scope_id ev, v) = Some False"
proof -
  obtain ok st1 where c: "check_should_process st t_check (scope_id ev) v = (ok, st1)"
    by (cases "check_should_process st t_check (scope_id ev) v") blast
  from pc c have ok: "ok" and free: "\<not> is_processing st1 (scope_id ev) v"
    by (simp_all add: passes_checks_def)
  from c have st1: "st1 = snd (check_should_process st t_check (scope_id ev) v)" by simp
  have h: "bilibili_handle cfg w st ev text keyword t_check t_recheck t_mark =
        async_with_lock st1 (scope_id ev) v t_recheck t_mark
          (bilibili_work cfg w keyword v page_num video_type) []"
    using p v c ok free by (simp add: bilibili_handle_def Let_def)
  have "extends_trace (bilibili_work cfg w keyword v page_num video_type)"
    by (rule extends_bilibili_work)
  from guarded_run [OF pc this, of t_mark]
  show ?thesis unfolding h st1 .
qed

lemma auto_download_handle_proceeds:
  assumes p: "parse_video_id_from_text (redirect_result w) text keyword = Inr (Some (url, v, page_num, video_type))"
      and v: "v \<noteq> []"
      and pc: "passes_checks st (scope_id ev) v t_check t_recheck"
  shows "\<exists>st' ext.
           bilibili_auto_download_handle cfg w st ev text keyword t_check t_recheck t_mark =
             (Returned (fst (auto_download_work cfg w v page_num video_type
                               [LockAcquire (scope_id ev, v), MarkProcessed (scope_id ev, v) t_mark])),
              st',
              LockAcquire (scope_id ev, v) # MarkProcessed (scope_id ev, v) t_mark # ext
                @ [LockRelease (scope_id ev, v)])
         \<and> last_processed st' (scope_id ev, v) = Some t_mark
         \<and> processing_locks st' (scope_id ev, v) = Some False"
proof -
  obtain ok st1 where c: "check_should_process st t_check (scope_id ev) v = (ok, st1)"
    by (cases "check_should_process st t_check (scope_id ev) v") blast
  from pc c have ok: "ok"
    by (simp_all add: passes_checks_def)
  from c have st1: "st1 = snd (check_should_process st t_check (scope_id ev) v)" by simp
  have h: "bilibili_auto_download_handle cfg w st ev text keyword t_check t_recheck t_mark =
        async_with_lock st1 (scope_id ev) v t_recheck t_mark
          (auto_download_work cfg w v page_num video_type) []"
    using p v c ok by (simp add: bilibili_auto_download_handle_def Let_def)
  have "extends_trace (auto_download_work cfg w v page_num video_type)"
    by (rule extends_auto_download_work)
  from guarded_run [OF pc this, of t_mark]
  show ?thesis unfolding h st1 .
qed

lemma parse_bare_bv:
  "parse_video_id_from_text r ''BV1xx411c7mD'' ''BV'' =
     Inr (Some (''BV1xx411c7mD'', ''BV1xx411c7mD'', 1, ''BV''))"
  by (simp add: parse_video_id_from_text_def PATTERNS_def resolve_id_and_page_def match_at_def
      page_tail_def bv_chars_def letter_chars_def digit_chars_def space_chars_def page_param_def
      str_of_group_def Let_def)

lemma passes_checks_fresh: "passes_checks fresh_coord g v t1 t2"
  by (simp add: passes_checks_iff fresh_coord_def should_process_video_result delete_expired_apply
      is_processing_def)






lemma check_keeps_locks:
  "processing_locks (snd (check_should_process st now g v)) = processing_locks st"
  by (simp add: check_should_process_snd)

lemma async_with_lock_keeps_held:
  "is_processing (fst (snd (async_with_lock st g v t_recheck t_mark work tr))) g' v'
     = is_processing st g' v'"
proof (cases "is_processing st g v")
  case True
  then show ?thesis by (simp add: async_with_lock_held)
next
  case False
  then show ?thesis
    by (auto simp: async_with_lock_free guarded_section_eq is_processing_def)
qed

lemma bilibili_handle_keeps_held:
  "is_processing (fst (snd (bilibili_handle cfg w st ev txt keyword t_check t_recheck t_mark))) g' v'
     = is_processing st g' v'"
proof (cases "parse_video_id_from_text (redirect_result w) txt keyword")
  case (Inl e)
  then show ?thesis by (simp add: bilibili_handle_def)
next
  case (Inr res)
  show ?thesis
  proof (cases res)
    case None
    with Inr show ?thesis by (simp add: bilibili_handle_def)
  next
    case (Some quad)
    obtain url v page_num video_type where q: "quad = (url, v, page_num, video_type)"
      by (cases quad) auto
    show ?thesis
    proof (cases "v = []")
      case True
      with Inr Some q show ?thesis
        by (simp add: bilibili_handle_def split: prod.split)
    next
      case False
      obtain ok st1 where c: "check_should_process st t_check (scope_id ev) v = (ok, st1)"
        by (cases "check_should_process st t_check (scope_id ev) v") blast
      then have "st1 = snd (check_should_process st t_check (scope_id ev) v)" by simp
      then have k: "is_processing st1 g' v' = is_processing st g' v'"
        by (simp add: is_processing_def check_keeps_locks)
      from Inr Some q False c k show ?thesis
        by (simp add: bilibili_handle_def Let_def async_with_lock_keeps_held)
    qed
  qed
qed

lemma auto_download_handle_keeps_held:
  "is_processing (fst (snd (bilibili_auto_download_handle cfg w st ev txt keyword t_check t_recheck t_mark))) g' v'
     = is_processing st g' v'"
proof (cases "parse_video_id_from_text (redirect_result w) txt keyword")
  case (Inl e)
  then show ?thesis by (simp add: bilibili_auto_download_handle_def)
next
  case (Inr res)
  show ?thesis
  proof (cases res)
    case None
    with Inr show ?thesis by (simp add: bilibili_auto_download_handle_def)
  next
    case (Some quad)
    obtain url v page_num video_type where q: "quad = (url, v, page_num, video_type)"
      by (cases quad) auto
    show ?thesis
    proof (cases "v = []")
      case True
      with Inr Some q show ?thesis
        by (simp add: bilibili_auto_download_handle_def)
    next
      case False
      obtain ok st1 where c: "check_should_process st t_check (scope_id ev) v = (ok, st1)"
        by (cases "check_should_process st t_check (scope_id ev) v") blast
      then have "st1 = snd (check_should_process st t_check (scope_id ev) v)" by simp
      then have k: "is_processing st1 g' v' = is_processing st g' v'"
        by (simp add: is_processing_def check_keeps_locks)
      from Inr Some q False c k show ?thesis
        by (simp add: bilibili_auto_download_handle_def Let_def async_with_lock_keeps_held)
    qed
  qed
qed

lemma async_with_lock_exit:
  assumes ext: "extends_trace work"
      and tr: "snd (snd (async_with_lock st g v t_recheck t_mark work [])) = LockAcquire k # rest"
  shows "(\<exists>r. fst (async_with_lock st g v t_recheck t_mark work []) = Returned r)
       \<and> last (snd (snd (async_with_lock st g v t_recheck t_mark work []))) = LockRelease k
       \<and> processing_locks (fst (snd (async_with_lock st g v t_recheck t_mark work []))) k = Some False"
proof (cases "is_processing st g v")
  case True
  with tr show ?thesis by (simp add: async_with_lock_held)
next
  case False
  let ?tr0 = "[LockAcquire (g, v), MarkProcessed (g, v) t_mark]"
  from ext have "prefix ?tr0 (snd (work ?tr0))" by (simp add: extends_trace_def)
  then obtain e where e: "snd (work ?tr0) = ?tr0 @ e" by (auto simp: prefix_def)
  from False tr e have k: "k = (g, v)"
    by (auto simp: async_with_lock_free guarded_section_eq split: if_splits)
  from False e show ?thesis unfolding k
    by (auto simp: async_with_lock_free guarded_section_eq)
qed

lemma bilibili_handle_exit:
  assumes "snd (snd (bilibili_handle cfg w st ev text keyword t1 t2 t3)) = LockAcquire k # rest"
  shows "(\<exists>r. fst (bilibili_handle cfg w st ev text keyword t1 t2 t3) = Returned r)
       \<and> last (snd (snd (bilibili_handle cfg w st ev text keyword t1 t2 t3))) = LockRelease k
       \<and> processing_locks (fst (snd (bilibili_handle cfg w st ev text keyword t1 t2 t3))) k = Some False"
proof (cases "parse_video_id_from_text (redirect_result w) text keyword")
  case (Inl e)
  with assms show ?thesis by (simp add: bilibili_handle_def)
next
  case (Inr res)
  show ?thesis
  proof (cases res)
    case None
    with Inr assms show ?thesis by (simp add: bilibili_handle_def)
  next
    case (Some quad)
    obtain url v page_num video_type where q: "quad = (url, v, page_num, video_type)"
      by (cases quad) auto
    show ?thesis
    proof (cases "v = []")
      case True
      with Inr Some q assms show ?thesis
        by (simp add: bilibili_handle_def handle_non_video_content_def perform_def io_bind_def
            io_raise_def split: sum.splits prod.splits)
    next
      case False
      obtain ok st1 where c: "check_should_process st t1 (scope_id ev) v = (ok, st1)"
        by (cases "check_should_process st t1 (scope_id ev) v") blast
      show ?thesis
      proof (cases "ok \<and> \<not> is_processing st1 (scope_id ev) v")
        case True
        then have h: "bilibili_handle cfg w st ev text keyword t1 t2 t3 =
            async_with_lock st1 (scope_id ev) v t2 t3
              (bilibili_work cfg w keyword v page_num video_type) []"
          using Inr Some q False c by (simp add: bilibili_handle_def Let_def)
        from assms show ?thesis unfolding h
          by (rule async_with_lock_exit [OF extends_bilibili_work])
      next
        case no: False
        with Inr Some q False c assms show ?thesis
          by (auto simp: bilibili_handle_def Let_def)
      qed
    qed
  qed
qed

lemma auto_download_handle_exit:
  assumes "snd (snd (bilibili_auto_download_handle cfg w st ev text keyword t1 t2 t3)) = LockAcquire k # rest"
  shows "(\<exists>r. fst (bilibili_auto_download_handle cfg w st ev text keyword t1 t2 t3) = Returned r)
       \<and> last (snd (snd (bilibili_auto_download_handle cfg w st ev text keyword t1 t2 t3))) = LockRelease k
       \<and> processing_locks (fst (snd (bilibili_auto_download_handle cfg w st ev text keyword t1 t2 t3))) k = Some False"
proof (cases "parse_video_id_from_text (redirect_result w) text keyword")
  case (Inl e)
  with assms show ?thesis by (simp add: bilibili_auto_download_handle_def)
next
  case (Inr res)
  show ?thesis
  proof (cases res)
    case None
    with Inr assms show ?thesis by (simp add: bilibili_auto_download_handle_def)
  next
    case (Some quad)
    obtain url v page_num video_type where q: "quad = (url, v, page_num, video_type)"
      by (cases quad) auto
    show ?thesis
    proof (cases "v = []")
      case True
      with Inr Some q assms show ?thesis
        by (simp add: bilibili_auto_download_handle_def)
    next
      case False
      obtain ok st1 where c: "check_should_process st t1 (scope_id ev) v = (ok, st1)"
        by (cases "check_should_process st t1 (scope_id ev) v") blast
      show ?thesis
      proof (cases ok)
        case True
        then have h: "bilibili_auto_download_handle cfg w st ev text keyword t1 t2 t3 =
            async_with_lock st1 (scope_id ev) v t2 t3
              (auto_download_work cfg w v page_num video_type) []"
          using Inr Some q False c by (simp add: bilibili_auto_download_handle_def Let_def)
        from assms show ?thesis unfolding h
          by (rule async_with_lock_exit [OF extends_auto_download_work])
      next
        case no: False
        with Inr Some q False c assms show ?thesis
          by (auto simp: bilibili_auto_download_handle_def Let_def)
      qed
    qed
  qed
qed

text \<open>
  Claim C7. The guarded section releases the lock on every way out. For any work, whatever it
  returns or raises, and also when the double check makes the section return early, the section
  returns, its last action is the release and the lock of the key is unlocked afterwards. For
  the two handlers: whenever an invocation has acquired the lock of a key, it returns, its last
  action is the release of that lock and the lock is unlocked in the state it leaves; and no
  invocation changes which locks are held.
\<close>

theorem lock_released_on_every_exit:
  "(\<exists>r. fst (guarded_section st g v t_recheck t_mark work tr) = Returned r)
   \<and> processing_locks (fst (snd (guarded_section st g v t_recheck t_mark work tr))) (g, v) = Some False
   \<and> (\<exists>pre. snd (snd (guarded_section st g v t_recheck t_mark work tr)) = pre @ [LockRelease (g, v)])
   \<and> (\<forall>k rest. snd (snd (bilibili_handle cfg w st0 ev msg keyword t1 t2 t3)) = LockAcquire k # rest \<longrightarrow>
         (\<exists>r. fst (bilibili_handle cfg w st0 ev msg keyword t1 t2 t3) = Returned r)
         \<and> last (snd (snd (bilibili_handle cfg w st0 ev msg keyword t1 t2 t3))) = LockRelease k
         \<and> processing_locks (fst (snd (bilibili_handle cfg w st0 ev msg keyword t1 t2 t3))) k = Some False)
   \<and> (\<forall>k rest. snd (snd (bilibili_auto_download_handle cfg w st0 ev msg keyword t1 t2 t3)) = LockAcquire k # rest \<longrightarrow>
         (\<exists>r. fst (bilibili_auto_download_handle cfg w st0 ev msg keyword t1 t2 t3) = Returned r)
         \<and> last (snd (snd (bilibili_auto_download_handle cfg w st0 ev msg keyword t1 t2 t3))) = LockRelease k
         \<and> processing_locks (fst (snd (bilibili_auto_download_handle cfg w st0 ev msg keyword t1 t2 t3))) k = Some False)
   \<and> (\<forall>g' v'. is_processing (fst (snd (bilibili_handle cfg w st0 ev msg keyword t1 t2 t3))) g' v'
         = is_processing st0 g' v')
   \<and> (\<forall>g' v'. is_processing (fst (snd (bilibili_auto_download_handle cfg w st0 ev msg keyword t1 t2 t3))) g' v'
         = is_processing st0 g' v')"
proof -
  have a: "(\<exists>r. fst (guarded_section st g v t_recheck t_mark work tr) = Returned r)
     \<and> processing_locks (fst (snd (guarded_section st g v t_recheck t_mark work tr))) (g, v) = Some False
     \<and> (\<exists>pre. snd (snd (guarded_section st g v t_recheck t_mark work tr)) = pre @ [LockRelease (g, v)])"
    by (simp add: guarded_section_eq)
  show ?thesis
    using a bilibili_handle_exit [of cfg w st0 ev msg keyword t1 t2 t3]
      auto_download_handle_exit [of cfg w st0 ev msg keyword t1 t2 t3]
    by (simp add: bilibili_handle_keeps_held auto_download_handle_keeps_held)
qed


theorem lock_released_on_every_exit_witness:
  "processing_locks (fst (snd (guarded_section
        \<lparr>last_processed = [(7, ''BV1xx411c7mD'') \<mapsto> 100], processing_locks = Map.empty\<rparr>
        7 ''BV1xx411c7mD'' 200 201 (io_raise (OtherException ''unused'')) []))) (7, ''BV1xx411c7mD'')
     = Some False
   \<and> last (snd (snd (bilibili_handle sample_config
        (calm_world\<lparr>parse_video_info_result := (\<lambda>r p. Inl (OtherException ''network''))\<rparr>)
        fresh_coord (GroupMessageEvent 7 42) ''BV1xx411c7mD'' ''BV'' 1000 1000 1001)))
     = LockRelease (7, ''BV1xx411c7mD'')
   \<and> processing_locks (fst (snd (bilibili_handle sample_config
        (calm_world\<lparr>parse_video_info_result := (\<lambda>r p. Inl (OtherException ''network''))\<rparr>)
        fresh_coord (GroupMessageEvent 7 42) ''BV1xx411c7mD'' ''BV'' 1000 1000 1001))) (7, ''BV1xx411c7mD'')
     = Some False
   \<and> last (snd (snd (bilibili_auto_download_handle sample_config
        (calm_world\<lparr>parse_video_info_result := (\<lambda>r p. Inl (OtherException ''network''))\<rparr>)
        fresh_coord (GroupMessageEvent 7 42) ''BV1xx411c7mD'' ''BV'' 1000 1000 1001)))
     = LockRelease (7, ''BV1xx411c7mD'')
   \<and> processing_locks (fst (snd (bilibili_auto_download_handle sample_config
        (calm_world\<lparr>parse_video_info_result := (\<lambda>r p. Inl (OtherException ''network''))\<rparr>)
        fresh_coord (GroupMessageEvent 7 42) ''BV1xx411c7mD'' ''BV'' 1000 1000 1001))) (7, ''BV1xx411c7mD'')
     = Some False"
proof -
  let ?w = "calm_world\<lparr>parse_video_info_result := (\<lambda>r p. Inl (OtherException ''network''))\<rparr>"
  let ?ev = "GroupMessageEvent 7 42"
  let ?k = "(7::int, ''BV1xx411c7mD'')"
  have s: "scope_id ?ev = 7" by (simp add: scope_id_def)
  have n: "''BV1xx411c7mD'' \<noteq> []" by simp
  from bilibili_handle_proceeds [where w = ?w and ev = ?ev and cfg = sample_config
      and t_mark = 1001 and t_check = 1000 and t_recheck = 1000 and st = fresh_coord,
      OF parse_bare_bv n passes_checks_fresh]
  obtain rest1 where b: "snd (snd (bilibili_handle sample_config ?w fresh_coord ?ev ''BV1xx411c7mD''
      ''BV'' 1000 1000 1001)) = LockAcquire ?k # rest1"
    unfolding s by auto
  from auto_download_handle_proceeds [where w = ?w and ev = ?ev and cfg = sample_config
      and t_mark = 1001 and t_check = 1000 and t_recheck = 1000 and st = fresh_coord,
      OF parse_bare_bv n passes_checks_fresh]
  obtain rest2 where a: "snd (snd (bilibili_auto_download_handle sample_config ?w fresh_coord ?ev
      ''BV1xx411c7mD'' ''BV'' 1000 1000 1001)) = LockAcquire ?k # rest2"
    unfolding s by auto
  from lock_released_on_every_exit [where st = "\<lparr>last_processed = [(7, ''BV1xx411c7mD'') \<mapsto> 100],
        processing_locks = Map.empty\<rparr>" and g = 7 and v = "''BV1xx411c7mD''" and t_recheck = 200
      and t_mark = 201 and work = "io_raise (OtherException ''unused'')" and tr = "[]"
      and cfg = sample_config and w = ?w and ?st0.0 = fresh_coord and ev = ?ev
      and msg = "''BV1xx411c7mD''" and keyword = "''BV''" and ?t1.0 = 1000 and ?t2.0 = 1000
      and ?t3.0 = 1001] a b
  show ?thesis by blast
qed

text \<open>
  Claim C10. A private message event gets scope id 0, so two private users asking for the same
  video use the same key. After the invocation of one private user has passed the checks and
  marked the video (in either handler), \<^verbatim>\<open>should_process_video\<close> is false for any other
  private user and the same video at every clock reading less than 300 seconds after the mark.
\<close>

theorem private_chats_share_scope:
  assumes p: "parse_video_id_from_text (redirect_result w) text keyword =
                Inr (Some (url, v, page_num, video_type))"
      and v: "v \<noteq> []"
      and pc: "passes_checks st (scope_id (PrivateMessageEvent u1)) v t_check t_recheck"
  shows "(scope_id (PrivateMessageEvent u1), v) = (0, v)
       \<and> (scope_id (PrivateMessageEvent u2), v) = (0, v)
       \<and> (\<forall>now. now - t_mark < RATE_LIMIT_SECONDS \<longrightarrow>
            fst (should_process_video
                   (last_processed (fst (snd (bilibili_handle cfg w st (PrivateMessageEvent u1) text
                                                keyword t_check t_recheck t_mark))))
                   now (scope_id (PrivateMessageEvent u2)) v) = False)
       \<and> (\<forall>now. now - t_mark < RATE_LIMIT_SECONDS \<longrightarrow>
            fst (should_process_video
                   (last_processed (fst (snd (bilibili_auto_download_handle cfg w st
                                                (PrivateMessageEvent u1) text keyword t_check
                                                t_recheck t_mark))))
                   now (scope_id (PrivateMessageEvent u2)) v) = False)"
proof -
  have s: "scope_id (PrivateMessageEvent u) = 0" for u
    by (simp add: scope_id_def)
  from bilibili_handle_proceeds [OF p v pc, where cfg = cfg and t_mark = t_mark]
  have b: "last_processed (fst (snd (bilibili_handle cfg w st (PrivateMessageEvent u1) text
             keyword t_check t_recheck t_mark))) (0, v) = Some t_mark"
    unfolding s by auto
  from auto_download_handle_proceeds [OF p v pc, where cfg = cfg and t_mark = t_mark]
  have a: "last_processed (fst (snd (bilibili_auto_download_handle cfg w st (PrivateMessageEvent u1)
             text keyword t_check t_recheck t_mark))) (0, v) = Some t_mark"
    unfolding s by auto
  show ?thesis
    unfolding s using a b by (simp add: marked_is_suppressed)
qed

theorem private_chats_share_scope_witness:
  "fst (should_process_video
          (last_processed (fst (snd (bilibili_handle sample_config calm_world fresh_coord
             (PrivateMessageEvent 11) ''BV1xx411c7mD'' ''BV'' 1000 1000 1001))))
          1300 (scope_id (PrivateMessageEvent 22)) ''BV1xx411c7mD'') = False
   \<and> fst (should_process_video
          (last_processed (fst (snd (bilibili_auto_download_handle sample_config calm_world fresh_coord
             (PrivateMessageEvent 11) ''BV1xx411c7mD'' ''BV'' 1000 1000 1001))))
          1300 (scope_id (PrivateMessageEvent 22)) ''BV1xx411c7mD'') = False"
proof -
  have n: "''BV1xx411c7mD'' \<noteq> []" by simp
  have t: "(1300::real) - 1001 < RATE_LIMIT_SECONDS" by (simp add: RATE_LIMIT_SECONDS_def)
  from private_chats_share_scope [where w = calm_world and cfg = sample_config and ?u1.0 = 11
      and ?u2.0 = 22 and t_mark = 1001 and t_check = 1000 and t_recheck = 1000 and st = fresh_coord,
      OF parse_bare_bv n passes_checks_fresh] t
  show ?thesis by blast
qed


section \<open>Properties of concurrent invocations\<close>


lemma is_processing_check:
  "is_processing (snd (check_should_process st t g v)) g' v' = is_processing st g' v'"
  by (simp add: is_processing_def check_should_process_snd)

lemma lookup_lock_cases:
  assumes "lookup_lock st (g, v) = (locked, st2)"
  shows "locked = is_processing st g v"
    and "is_processing st2 g' v' = is_processing st g' v'"
  using assms
  by (auto simp: lookup_lock_def is_processing_def split: option.splits if_splits)

lemma acquire_segment_cases:
  assumes "acquire_segment st g v t2 t3 = (p, st')" and "\<not> is_processing st g v"
  shows "(p = InSection \<and> (\<forall>g' v'. is_processing st' g' v' = ((g', v') = (g, v) \<or> is_processing st g' v')))
       \<or> (p = Finished RecheckFailed \<and> (\<forall>g' v'. is_processing st' g' v' = is_processing st g' v'))"
  using assms
  by (auto simp: acquire_segment_def enter_guarded_eq set_locked_def is_processing_def
      split: if_splits)

lemma entry_segment_cases:
  assumes "entry_segment m st g v queued t1 t2 t3 = (p, st')"
  shows "(p = InSection \<and> \<not> is_processing st g v
          \<and> (\<forall>g' v'. is_processing st' g' v' = ((g', v') = (g, v) \<or> is_processing st g' v')))
       \<or> (p \<noteq> InSection \<and> p \<noteq> NotStarted
          \<and> (\<forall>g' v'. is_processing st' g' v' = is_processing st g' v'))"
proof -
  obtain ok st1 where c: "check_should_process st t1 g v = (ok, st1)"
    by (cases "check_should_process st t1 g v") blast
  then have st1: "st1 = snd (check_should_process st t1 g v)" by simp
  have ip: "is_processing st1 g' v' = is_processing st g' v'" for g' v'
    unfolding st1 by (rule is_processing_check)
  show ?thesis
  proof (cases "ok \<and> \<not> (m = Bilibili \<and> is_processing st1 g v)")
    case False
    with assms c ip show ?thesis
      by (auto simp: entry_segment_def split: if_splits)
  next
    case True
    obtain locked st2 where l: "lookup_lock st1 (g, v) = (locked, st2)"
      by (cases "lookup_lock st1 (g, v)") blast
    then have lk: "locked = is_processing st1 g v"
      and ip2: "\<And>g' v'. is_processing st2 g' v' = is_processing st1 g' v'"
      by (rule lookup_lock_cases)+
    show ?thesis
    proof (cases "locked \<or> queued")
      case t: True
      with assms c True l have "p = WaitingForLock" "st' = st2"
        by (auto simp: entry_segment_def)
      with ip ip2 show ?thesis by simp
    next
      case f: False
      with assms c True l have a: "acquire_segment st2 g v t2 t3 = (p, st')"
        by (auto simp: entry_segment_def)
      from f lk ip2 have "\<not> is_processing st2 g v" by simp
      from acquire_segment_cases [OF a this] f lk ip ip2 show ?thesis by auto
    qed
  qed
qed

lemma in_section_set_pc:
  assumes "tasks s' = set_pc (tasks s) i p"
  shows "in_section s' j k \<longleftrightarrow>
     j < length (tasks s) \<and>
     (if j = i then p = InSection \<and> (task_group (tasks s ! i), task_video (tasks s ! i)) = k
      else in_section s j k)"
  using assms by (auto simp: in_section_def set_pc_def)

lemma lock_inv_enter:
  assumes inv: "lock_inv s"
      and i: "i < length (tasks s)"
      and ni: "\<And>k. \<not> in_section s i k"
      and sec: "\<And>j k. in_section s' j k \<longleftrightarrow>
                  j < length (tasks s) \<and> (if j = i then p = InSection \<and> key = k else in_section s j k)"
      and free: "p = InSection \<Longrightarrow> \<not> is_processing (shared s) (fst key) (snd key)"
      and new: "\<And>g v. is_processing (shared s') g v \<longleftrightarrow>
                  (p = InSection \<and> (g, v) = key) \<or> is_processing (shared s) g v"
  shows "lock_inv s'"
proof -
  from inv have old1: "\<And>g v. is_processing (shared s) g v = (\<exists>j. in_section s j (g, v))"
    and old2: "\<And>a b k. in_section s a k \<Longrightarrow> in_section s b k \<Longrightarrow> a = b"
    unfolding lock_inv_def by blast+
  have lt: "in_section s j k \<Longrightarrow> j < length (tasks s)" for j k
    by (simp add: in_section_def)
  have none: "p = InSection \<Longrightarrow> \<not> in_section s j key" for j
    using free old1 [of "fst key" "snd key"] by auto
  have a: "is_processing (shared s') g v = (\<exists>j. in_section s' j (g, v))" for g v
  proof
    assume "is_processing (shared s') g v"
    then consider "p = InSection" "(g, v) = key" | "is_processing (shared s) g v"
      using new by blast
    then show "\<exists>j. in_section s' j (g, v)"
    proof cases
      case 1
      with i sec [of i "(g, v)"] show ?thesis by auto
    next
      case 2
      then obtain j where j: "in_section s j (g, v)" using old1 by blast
      with ni have "j \<noteq> i" by blast
      with j lt [OF j] sec [of j "(g, v)"] show ?thesis by auto
    qed
  next
    assume "\<exists>j. in_section s' j (g, v)"
    then obtain j where j: "in_section s' j (g, v)" by blast
    show "is_processing (shared s') g v"
    proof (cases "j = i")
      case True
      with j sec [of j "(g, v)"] new [of g v] show ?thesis by auto
    next
      case False
      with j sec [of j "(g, v)"] have "in_section s j (g, v)" by auto
      with old1 [of g v] new [of g v] show ?thesis by blast
    qed
  qed
  have b: "a = b" if "in_section s' a k" "in_section s' b k" for a b k
  proof (cases "a = i"; cases "b = i")
    assume "a = i" "b = i" then show ?thesis by simp
  next
    assume "a = i" "b \<noteq> i"
    with that sec [of a k] sec [of b k] none [of b] show ?thesis by auto
  next
    assume "a \<noteq> i" "b = i"
    with that sec [of a k] sec [of b k] none [of a] show ?thesis by auto
  next
    assume "a \<noteq> i" "b \<noteq> i"
    with that sec [of a k] sec [of b k] old2 [of a k b] show ?thesis by auto
  qed
  from a b show ?thesis unfolding lock_inv_def by blast
qed

lemma lock_inv_exit:
  assumes inv: "lock_inv s"
      and ii: "in_section s i key"
      and sec: "\<And>j k. in_section s' j k \<longleftrightarrow> j \<noteq> i \<and> in_section s j k"
      and new: "\<And>g v. is_processing (shared s') g v \<longleftrightarrow>
                  is_processing (shared s) g v \<and> (g, v) \<noteq> key"
  shows "lock_inv s'"
proof -
  from inv have old1: "\<And>g v. is_processing (shared s) g v = (\<exists>j. in_section s j (g, v))"
    and old2: "\<And>a b k. in_section s a k \<Longrightarrow> in_section s b k \<Longrightarrow> a = b"
    unfolding lock_inv_def by blast+
  have a: "is_processing (shared s') g v = (\<exists>j. in_section s' j (g, v))" for g v
  proof
    assume "is_processing (shared s') g v"
    with new have p: "is_processing (shared s) g v" and ne: "(g, v) \<noteq> key" by blast+
    from p obtain j where j: "in_section s j (g, v)" using old1 by blast
    have "j \<noteq> i"
    proof
      assume "j = i"
      with j ii have "(g, v) = key" by (simp add: in_section_def)
      with ne show False by simp
    qed
    with j sec show "\<exists>j. in_section s' j (g, v)" by blast
  next
    assume "\<exists>j. in_section s' j (g, v)"
    then obtain j where j: "j \<noteq> i" "in_section s j (g, v)" using sec by blast
    have "(g, v) \<noteq> key"
    proof
      assume "(g, v) = key"
      with j ii old2 [of j key i] show False by simp
    qed
    with j old1 [of g v] new [of g v] show "is_processing (shared s') g v" by blast
  qed
  have b: "a = b" if "in_section s' a k" "in_section s' b k" for a b k
    using that sec old2 by blast
  from a b show ?thesis unfolding lock_inv_def by blast
qed


lemma step_lock_inv:
  assumes inv: "lock_inv s" and st: "step s e = Some s'"
  shows "lock_inv s'"
proof (cases e)
  case (Start i t1 t2 t3)
  let ?t = "tasks s ! i"
  let ?key = "(task_group ?t, task_video ?t)"
  from st Start have i: "i < length (tasks s)" and pc: "task_pc ?t = NotStarted"
    by (auto split: if_splits)
  obtain p st' where es: "entry_segment (task_matcher ?t) (shared s) (task_group ?t) (task_video ?t)
      (queued_for s (task_key ?t)) t1 t2 t3 = (p, st')"
    by (cases "entry_segment (task_matcher ?t) (shared s) (task_group ?t) (task_video ?t)
      (queued_for s (task_key ?t)) t1 t2 t3") blast
  from st Start i pc es have s': "shared s' = st'" "tasks s' = set_pc (tasks s) i p"
    by (auto simp: Let_def)
  from pc have ni: "\<not> in_section s i k" for k by (simp add: in_section_def)
  have sec: "in_section s' j k \<longleftrightarrow>
     j < length (tasks s) \<and> (if j = i then p = InSection \<and> ?key = k else in_section s j k)" for j k
    by (rule in_section_set_pc) (simp add: s')
  have sh: "shared s' = st'" by (simp add: s')
  from entry_segment_cases [OF es]
  have free: "p = InSection \<Longrightarrow> \<not> is_processing (shared s) (fst ?key) (snd ?key)"
    and new: "is_processing (shared s') g v \<longleftrightarrow>
                (p = InSection \<and> (g, v) = ?key) \<or> is_processing (shared s) g v" for g v
    unfolding sh by auto
  from inv i ni sec free new show ?thesis by (rule lock_inv_enter)
next
  case (Wake i t2 t3)
  let ?t = "tasks s ! i"
  let ?key = "(task_group ?t, task_video ?t)"
  from st Wake have i: "i < length (tasks s)" and pc: "task_pc ?t = WaitingForLock"
    and fr: "\<not> is_processing (shared s) (task_group ?t) (task_video ?t)"
    by (auto split: if_splits)
  obtain p st' where es: "acquire_segment (shared s) (task_group ?t) (task_video ?t) t2 t3 = (p, st')"
    by (cases "acquire_segment (shared s) (task_group ?t) (task_video ?t) t2 t3") blast
  from st Wake i pc fr es have s': "shared s' = st'" "tasks s' = set_pc (tasks s) i p"
    by (auto simp: Let_def split: if_splits)
  from pc have ni: "\<not> in_section s i k" for k by (simp add: in_section_def)
  have sec: "in_section s' j k \<longleftrightarrow>
     j < length (tasks s) \<and> (if j = i then p = InSection \<and> ?key = k else in_section s j k)" for j k
    by (rule in_section_set_pc) (simp add: s')
  have sh: "shared s' = st'" by (simp add: s')
  from fr have free: "p = InSection \<Longrightarrow> \<not> is_processing (shared s) (fst ?key) (snd ?key)"
    by simp
  from acquire_segment_cases [OF es fr]
  have new: "is_processing (shared s') g v \<longleftrightarrow>
                (p = InSection \<and> (g, v) = ?key) \<or> is_processing (shared s) g v" for g v
    unfolding sh by auto
  from inv i ni sec free new show ?thesis by (rule lock_inv_enter)
next
  case (Exit i)
  let ?t = "tasks s ! i"
  let ?key = "(task_group ?t, task_video ?t)"
  from st Exit have i: "i < length (tasks s)" and pc: "task_pc ?t = InSection"
    by (auto split: if_splits)
  from st Exit i pc
  have s': "shared s' = exit_segment (shared s) (task_group ?t) (task_video ?t)"
    "tasks s' = set_pc (tasks s) i (Finished Completed)"
    by (auto simp: Let_def)
  from i pc have ii: "in_section s i ?key" by (simp add: in_section_def)
  have sec: "in_section s' j k \<longleftrightarrow> j \<noteq> i \<and> in_section s j k" for j k
    using in_section_set_pc [of s' s i "Finished Completed" j k, OF s'(2)]
    by (auto simp: in_section_def)
  have new: "is_processing (shared s') g v \<longleftrightarrow>
       is_processing (shared s) g v \<and> (g, v) \<noteq> ?key" for g v
    by (auto simp: s' exit_segment_def set_locked_def is_processing_def)
  from inv ii sec new show ?thesis by (rule lock_inv_exit)
qed

lemma run_lock_inv:
  "lock_inv s \<Longrightarrow> run s es = Some s' \<Longrightarrow> lock_inv s'"
proof (induction es arbitrary: s)
  case Nil
  then show ?case by simp
next
  case (Cons e es)
  then show ?case
    by (auto split: option.splits dest: step_lock_inv)
qed

lemma initial_lock_inv: "lock_inv (initial reqs)"
  by (auto simp: lock_inv_def initial_def in_section_def is_processing_def fresh_task_def
      split: prod.splits)

lemma mutual_exclusion:
  assumes "run (initial reqs) es = Some s" and "in_section s i k" and "in_section s j k"
  shows "i = j"
proof -
  from run_lock_inv [OF initial_lock_inv assms(1)]
  have "\<forall>i j k. in_section s i k \<and> in_section s j k \<longrightarrow> i = j"
    unfolding lock_inv_def by (rule conjunct2)
  with assms(2,3) show ?thesis by blast
qed

lemma async_with_lock_segments:
  "fst (snd (async_with_lock st g v t2 t3 work tr)) =
     (case lookup_lock st (g, v) of
        (locked, st2) \<Rightarrow>
          if locked then st2
          else (case acquire_segment st2 g v t2 t3 of
                  (InSection, st3) \<Rightarrow> exit_segment st3 g v
                | (p, st3) \<Rightarrow> st3))
   \<and> (fst (async_with_lock st g v t2 t3 work tr) = Suspended \<longleftrightarrow> fst (lookup_lock st (g, v)))"
  by (auto simp: async_with_lock_def guarded_section_def acquire_segment_def exit_segment_def Let_def
      split: prod.splits bool.splits)

lemma handlers_follow_segments:
  assumes p: "parse_video_id_from_text (redirect_result w) txt keyword =
                Inr (Some (url, v, page_num, video_type))"
      and v: "v \<noteq> []"
  shows "fst (snd (bilibili_handle cfg w st ev txt keyword t1 t2 t3)) =
           (case entry_segment Bilibili st (scope_id ev) v False t1 t2 t3 of
              (InSection, st') \<Rightarrow> exit_segment st' (scope_id ev) v
            | (p, st') \<Rightarrow> st')"
    and "fst (bilibili_handle cfg w st ev txt keyword t1 t2 t3) = Suspended \<longleftrightarrow>
           fst (entry_segment Bilibili st (scope_id ev) v False t1 t2 t3) = WaitingForLock"
    and "fst (snd (bilibili_auto_download_handle cfg w st ev txt keyword t1 t2 t3)) =
           (case entry_segment BilibiliAutoDownload st (scope_id ev) v False t1 t2 t3 of
              (InSection, st') \<Rightarrow> exit_segment st' (scope_id ev) v
            | (p, st') \<Rightarrow> st')"
    and "fst (bilibili_auto_download_handle cfg w st ev txt keyword t1 t2 t3) = Suspended \<longleftrightarrow>
           fst (entry_segment BilibiliAutoDownload st (scope_id ev) v False t1 t2 t3) = WaitingForLock"
  using p v async_with_lock_segments
  by (auto simp: bilibili_handle_def bilibili_auto_download_handle_def entry_segment_def Let_def
      acquire_segment_def split: prod.splits if_splits pc.splits bool.splits)


lemma acquire_segment_marks:
  assumes "acquire_segment st g v t_recheck t_mark = (InSection, st')"
  shows "last_processed st' (g, v) = Some t_mark"
  using assms
  by (auto simp: acquire_segment_def enter_guarded_eq set_locked_def split: if_splits)

lemma entered_task_has_marked:
  assumes "step s e = Some s'"
      and "e = Start i t_check t_recheck t_mark \<or> e = Wake i t_recheck t_mark"
      and "task_pc (tasks s' ! i) = InSection"
  shows "last_processed (shared s') (task_key (tasks s ! i)) = Some t_mark"
proof -
  let ?t = "tasks s ! i"
  from assms(2) show ?thesis
  proof
    assume e: "e = Start i t_check t_recheck t_mark"
    from assms(1) e have i: "i < length (tasks s)" by (auto split: if_splits)
    obtain p st' where es: "entry_segment (task_matcher ?t) (shared s) (task_group ?t) (task_video ?t)
        (queued_for s (task_key ?t)) t_check t_recheck t_mark = (p, st')"
      by (cases "entry_segment (task_matcher ?t) (shared s) (task_group ?t) (task_video ?t)
        (queued_for s (task_key ?t)) t_check t_recheck t_mark") blast
    from assms(1) e es have s': "shared s' = st'" "tasks s' = set_pc (tasks s) i p"
      by (auto simp: Let_def split: if_splits)
    from s'(2) i assms(3) have p: "p = InSection" by (simp add: set_pc_def)
    obtain ok st1 where c: "check_should_process (shared s) t_check (task_group ?t) (task_video ?t) = (ok, st1)"
      by (cases "check_should_process (shared s) t_check (task_group ?t) (task_video ?t)") blast
    obtain locked st2 where l: "lookup_lock st1 (task_group ?t, task_video ?t) = (locked, st2)"
      by (cases "lookup_lock st1 (task_group ?t, task_video ?t)") blast
    from es p c l have "acquire_segment st2 (task_group ?t) (task_video ?t) t_recheck t_mark = (InSection, st')"
      by (auto simp: entry_segment_def split: if_splits)
    from acquire_segment_marks [OF this] s'(1) show ?thesis by (simp add: task_key_def)
  next
    assume e: "e = Wake i t_recheck t_mark"
    from assms(1) e have i: "i < length (tasks s)" by (auto split: if_splits)
    obtain p st' where es: "acquire_segment (shared s) (task_group ?t) (task_video ?t) t_recheck t_mark = (p, st')"
      by (cases "acquire_segment (shared s) (task_group ?t) (task_video ?t) t_recheck t_mark") blast
    from assms(1) e es have s': "shared s' = st'" "tasks s' = set_pc (tasks s) i p"
      by (auto simp: Let_def split: if_splits)
    from s'(2) i assms(3) have p: "p = InSection" by (simp add: set_pc_def)
    from acquire_segment_marks [OF es [unfolded p]] s'(1) show ?thesis by (simp add: task_key_def)
  qed
qed

lemmas run_defs =
  initial_def fresh_task_def entry_segment_def acquire_segment_def exit_segment_def enter_guarded_def
  check_should_process_def should_process_video_def delete_expired_def is_expired_def
  RATE_LIMIT_SECONDS_def lookup_lock_def set_locked_def do_mark_def mark_as_processed_def
  is_processing_def set_pc_def queued_for_def first_waiter_def task_key_def Let_def

lemma waiter_resumes_and_marks:
  "\<exists>s. run (initial [(BilibiliAutoDownload, 7, ''BV1xx411c7mD''),
                     (BilibiliAutoDownload, 7, ''BV1xx411c7mD'')])
            [Start 0 0 0 0, Start 1 300 300 300, Exit 0, Wake 1 310 310] = Some s
       \<and> map task_pc (tasks s) = [Finished Completed, InSection]
       \<and> last_processed (shared s) (7, ''BV1xx411c7mD'') = Some 310"
  by (simp add: run_defs)

lemma bilibili_queues_behind_waiter:
  "\<exists>s. run (initial [(BilibiliAutoDownload, 7, ''BV1xx411c7mD''),
                     (BilibiliAutoDownload, 7, ''BV1xx411c7mD''),
                     (Bilibili, 7, ''BV1xx411c7mD'')])
            [Start 0 0 0 0, Start 1 300 300 300, Exit 0, Start 2 601 601 601] = Some s
       \<and> map task_pc (tasks s) = [Finished Completed, WaitingForLock, WaitingForLock]
       \<and> \<not> is_processing (shared s) 7 ''BV1xx411c7mD''
       \<and> waiting s = [1, 2]"
  by (simp add: run_defs)

lemma bilibili_returns_when_locked:
  "\<exists>s. run (initial [(BilibiliAutoDownload, 7, ''BV1xx411c7mD''),
                     (Bilibili, 7, ''BV1xx411c7mD'')])
            [Start 0 0 0 0, Start 1 300 300 300] = Some s
       \<and> map task_pc (tasks s) = [InSection, Finished LockBusy]"
  by (simp add: initial_def fresh_task_def entry_segment_def acquire_segment_def enter_guarded_def
      check_should_process_def should_process_video_def delete_expired_def is_expired_def
      RATE_LIMIT_SECONDS_def lookup_lock_def set_locked_def do_mark_def mark_as_processed_def
      is_processing_def set_pc_def queued_for_def task_key_def Let_def)

text \<open>
  Claim C1 says that of the concurrent invocations for one key at most one is inside the
  guarded section (see \<open>mutual_exclusion\<close>) and that every other one is dropped by the dedup
  check or sees the lock held and returns at once, without waiting. The second part fails in
  the \<^verbatim>\<open>bilibili_auto_download\<close> handler, which has no \<^verbatim>\<open>is_processing\<close> test: the first
  invocation marks the key at clock reading 0 and is still inside the guarded section when the
  second one reads the clock at 300; the second passes the dedup check and is suspended on the
  lock. (With the \<^verbatim>\<open>is_processing\<close> test the \<^verbatim>\<open>bilibili\<close> handler returns at once in that
  situation, \<open>bilibili_returns_when_locked\<close>.)
\<close>

theorem auto_download_waits_on_lock:
  "\<exists>s. run (initial [(BilibiliAutoDownload, 7, ''BV1xx411c7mD''),
                     (BilibiliAutoDownload, 7, ''BV1xx411c7mD'')])
            [Start 0 0 0 0, Start 1 300 300 300] = Some s
       \<and> map task_pc (tasks s) = [InSection, WaitingForLock]
       \<and> is_processing (shared s) 7 ''BV1xx411c7mD''"
  by (simp add: initial_def fresh_task_def entry_segment_def acquire_segment_def enter_guarded_def
      check_should_process_def should_process_video_def delete_expired_def is_expired_def
      RATE_LIMIT_SECONDS_def lookup_lock_def set_locked_def do_mark_def mark_as_processed_def
      is_processing_def set_pc_def queued_for_def task_key_def Let_def)


section \<open>Properties of the filter store\<close>


lemma those_opts_ints: "those_opts (map int_of_json (map JInt xs)) = Some xs"
  by (induction xs) simp_all

lemma validate_dump_int_list: "validate_int_list (dump_int_list xs) = Some xs"
  by (simp only: dump_int_list_def validate_int_list.simps those_opts_ints)

lemma validate_dump_FilterItem: "validate_FilterItem (dump_FilterItem it) = Some it"
  by (simp add: dump_FilterItem_def member_def validate_dump_int_list)

lemma source_of_name_source_name: "source_of_name (source_name s) = Some s"
  by (cases s) (simp_all add: source_of_name_def source_name_def SOURCE_TYPES_def)

lemma validate_dump_filter_dict: "validate_filter_dict (dump_filter_dict d) = Some d"
proof -
  have e: "validate_filter_entries [(source_name s, dump_FilterItem it)] = Some [s \<mapsto> it]" for s it
    by (simp add: source_of_name_source_name validate_dump_FilterItem)
  have m: "(m = d) = (m Bilibili_source = d Bilibili_source \<and> m Douyin_source = d Douyin_source
                      \<and> m Ytb_source = d Ytb_source)" for m :: "source \<rightharpoonup> FilterItem"
  proof
    assume "m Bilibili_source = d Bilibili_source \<and> m Douyin_source = d Douyin_source
              \<and> m Ytb_source = d Ytb_source"
    then have "m s = d s" for s by (cases s) simp_all
    then show "m = d" by (rule ext)
  qed simp
  show ?thesis
    by (cases "d Bilibili_source"; cases "d Douyin_source"; cases "d Ytb_source")
       (simp_all add: dump_filter_dict_def SOURCE_TYPES_def source_of_name_source_name
          validate_dump_FilterItem m dom_def)
qed

lemma validate_dump_config: "model_validate_json (Doc (model_dump_json c)) = Some c"
  by (simp add: model_dump_json_def validate_field_def member_def validate_dump_filter_dict
      validate_dump_int_list)

lemma setdefault_keeps_groups:
  "disabled_groups_of (setdefault_sources c) s = disabled_groups_of c s"
  by (cases s)
     (auto simp: setdefault_sources_def SOURCE_TYPES_def disabled_groups_of_def dom_def
        split: option.splits)

lemma setdefault_keeps_lists:
  "do_not_download_media_groups (setdefault_sources c) = do_not_download_media_groups c"
  "bili_auto_download_when_disabled_groups (setdefault_sources c) =
     bili_auto_download_when_disabled_groups c"
  by (simp_all add: setdefault_sources_def)

lemma setdefault_full:
  "dom (filter_dict c) = UNIV \<Longrightarrow> setdefault_sources c = c"
  by (simp add: setdefault_sources_def SOURCE_TYPES_def)

text \<open>
  Claim C8. For every filter state, \<^verbatim>\<open>save_disabled_groups\<close> followed by
  \<^verbatim>\<open>load_or_initialize_set\<close> and \<^verbatim>\<open>load_filter_config\<close> gives back the same set of
  globally disabled groups, the same list of disabled groups for every platform, and the same
  \<^verbatim>\<open>do_not_download_media_groups\<close> and \<^verbatim>\<open>bili_auto_download_when_disabled_groups\<close>
  lists. When the dictionary has an entry for each of the three platforms (as every configuration
  that \<^verbatim>\<open>load_filter_config\<close> returns has), the reloaded configuration is the saved one.
  Loading writes nothing to the files.
\<close>

theorem filter_round_trip:
  "(case load_or_initialize_set (save_disabled_groups st fs) of
      (loaded, fs1) \<Rightarrow>
        (case load_filter_config fs1 of
           (config, fs2) \<Rightarrow>
             (\<exists>groups. loaded = Inr groups \<and> set groups = set (disabled_group_set st))
             \<and> (\<forall>s. disabled_groups_of config s = disabled_groups_of (filter_config st) s)
             \<and> do_not_download_media_groups config = do_not_download_media_groups (filter_config st)
             \<and> bili_auto_download_when_disabled_groups config =
                 bili_auto_download_when_disabled_groups (filter_config st)
             \<and> (dom (filter_dict (filter_config st)) = UNIV \<longrightarrow> config = filter_config st)
             \<and> fs2 = save_disabled_groups st fs))"
  by (simp add: load_or_initialize_set_def save_disabled_groups_def load_filter_config_def Let_def
      validate_dump_int_list validate_dump_config setdefault_keeps_groups setdefault_keeps_lists
      setdefault_full)

lemma source_UNIV: "(UNIV :: source set) = {Bilibili_source, Douyin_source, Ytb_source}"
proof -
  have "s \<in> {Bilibili_source, Douyin_source, Ytb_source}" for s by (cases s) simp_all
  then show ?thesis by blast
qed

theorem filter_round_trip_witness:
  "(\<exists>groups. fst (load_or_initialize_set (save_disabled_groups
        \<lparr>disabled_group_set = [3, 5],
         filter_config = \<lparr>filter_dict = [Bilibili_source \<mapsto> \<lparr>disabled_groups = [7]\<rparr>,
                                          Douyin_source \<mapsto> \<lparr>disabled_groups = []\<rparr>,
                                          Ytb_source \<mapsto> \<lparr>disabled_groups = [8, 9]\<rparr>],
                          do_not_download_media_groups = [1],
                          bili_auto_download_when_disabled_groups = [2]\<rparr>\<rparr>
        \<lparr>disabled_groups_file = None, filter_config_file = None\<rparr>)) = Inr groups
      \<and> set groups = {3, 5})
   \<and> fst (load_filter_config (snd (load_or_initialize_set (save_disabled_groups
        \<lparr>disabled_group_set = [3, 5],
         filter_config = \<lparr>filter_dict = [Bilibili_source \<mapsto> \<lparr>disabled_groups = [7]\<rparr>,
                                          Douyin_source \<mapsto> \<lparr>disabled_groups = []\<rparr>,
                                          Ytb_source \<mapsto> \<lparr>disabled_groups = [8, 9]\<rparr>],
                          do_not_download_media_groups = [1],
                          bili_auto_download_when_disabled_groups = [2]\<rparr>\<rparr>
        \<lparr>disabled_groups_file = None, filter_config_file = None\<rparr>))))
     = \<lparr>filter_dict = [Bilibili_source \<mapsto> \<lparr>disabled_groups = [7]\<rparr>,
                        Douyin_source \<mapsto> \<lparr>disabled_groups = []\<rparr>,
                        Ytb_source \<mapsto> \<lparr>disabled_groups = [8, 9]\<rparr>],
        do_not_download_media_groups = [1],
        bili_auto_download_when_disabled_groups = [2]\<rparr>"
proof -
  let ?c = "\<lparr>filter_dict = [Bilibili_source \<mapsto> \<lparr>disabled_groups = [7]\<rparr>,
                            Douyin_source \<mapsto> \<lparr>disabled_groups = []\<rparr>,
                            Ytb_source \<mapsto> \<lparr>disabled_groups = [8, 9]\<rparr>],
            do_not_download_media_groups = [1],
            bili_auto_download_when_disabled_groups = [2]\<rparr>"
  let ?st = "\<lparr>disabled_group_set = [3, 5], filter_config = ?c\<rparr>"
  let ?fs = "\<lparr>disabled_groups_file = None, filter_config_file = None\<rparr>"
  have d: "dom (filter_dict (filter_config ?st)) = UNIV"
    by (auto simp: source_UNIV)
  from filter_round_trip [of ?st ?fs] d show ?thesis
    by (auto split: prod.splits)
qed

text \<open>
  Claim C9 says that the two generations of \<^verbatim>\<open>is_not_in_disabled_groups_by_source_alias\<close>
  return the same boolean. They do not: for every state, event and alias the older one raises
  \<^verbatim>\<open>AttributeError\<close> (its parameter hides the alias table and a string has no
  \<^verbatim>\<open>items\<close>), while the newer one returns the boolean of the loop over \<^verbatim>\<open>SOURCE_ALIASES\<close>.
\<close>

theorem old_alias_rule_raises:
  "is_not_in_disabled_groups_by_source_alias_old st ev alias = Inl (AttributeError ''items'')
   \<and> is_not_in_disabled_groups_by_source_alias st ev alias = Inr (alias_loop st ev alias SOURCE_ALIASES)
   \<and> is_not_in_disabled_groups_by_source_alias_old st ev alias
       \<noteq> is_not_in_disabled_groups_by_source_alias st ev alias"
  by (simp add: is_not_in_disabled_groups_by_source_alias_old_def py_items_def
      is_not_in_disabled_groups_by_source_alias_def)

end
